theory Spec2Isabelle
  imports Complex_Main
begin

section \<open>Tensor values\<close>

text \<open>
  The notebook computes with floating-point numbers.  A finite value is a real number;
  the three non-finite results that IEEE arithmetic produces instead of raising are kept
  as values of their own, because the return normaliser divides without a guard.  Signed
  zeros are not distinguished.  The operations below are the arithmetic without
  rounding.
\<close>

datatype fval = Fin real | PInf | NInf | NaN

fun fneg :: "fval \<Rightarrow> fval" where
  "fneg (Fin a) = Fin (- a)"
| "fneg PInf = NInf"
| "fneg NInf = PInf"
| "fneg NaN = NaN"

fun fadd :: "fval \<Rightarrow> fval \<Rightarrow> fval" where
  "fadd (Fin a) (Fin b) = Fin (a + b)"
| "fadd NaN _ = NaN"
| "fadd _ NaN = NaN"
| "fadd PInf NInf = NaN"
| "fadd NInf PInf = NaN"
| "fadd PInf _ = PInf"
| "fadd _ PInf = PInf"
| "fadd NInf _ = NInf"
| "fadd _ NInf = NInf"

definition fsub :: "fval \<Rightarrow> fval \<Rightarrow> fval" where
  "fsub a b = fadd a (fneg b)"

definition signed_inf :: "bool \<Rightarrow> fval" where
  "signed_inf positive = (if positive then PInf else NInf)"

fun fmul :: "fval \<Rightarrow> fval \<Rightarrow> fval" where
  "fmul (Fin a) (Fin b) = Fin (a * b)"
| "fmul NaN _ = NaN"
| "fmul _ NaN = NaN"
| "fmul (Fin a) PInf = (if a = 0 then NaN else signed_inf (0 < a))"
| "fmul (Fin a) NInf = (if a = 0 then NaN else signed_inf (a < 0))"
| "fmul PInf (Fin b) = (if b = 0 then NaN else signed_inf (0 < b))"
| "fmul NInf (Fin b) = (if b = 0 then NaN else signed_inf (b < 0))"
| "fmul PInf PInf = PInf"
| "fmul PInf NInf = NInf"
| "fmul NInf PInf = NInf"
| "fmul NInf NInf = PInf"

fun fdivide :: "fval \<Rightarrow> fval \<Rightarrow> fval" where
  "fdivide (Fin a) (Fin b) =
     (if b \<noteq> 0 then Fin (a / b) else if a = 0 then NaN else signed_inf (0 < a))"
| "fdivide NaN _ = NaN"
| "fdivide _ NaN = NaN"
| "fdivide (Fin a) _ = Fin 0"
| "fdivide PInf (Fin b) = signed_inf (0 \<le> b)"
| "fdivide NInf (Fin b) = signed_inf (b < 0)"
| "fdivide _ _ = NaN"

section \<open>Float32 tensors\<close>

text \<open>
  The return normaliser works on a float32 tensor.  The operations of the tensor library
  it calls are not part of the notebook, and what they round to, in which order they
  accumulate and where they overflow is not fixed here: they are parameters.
  \<open>tensor32\<close> is the conversion of one float64 value by \<open>torch.tensor(list)\<close>, \<open>mean32\<close>
  and \<open>std32\<close> are \<open>tensor.mean()\<close> and \<open>tensor.std()\<close>, \<open>sub32\<close> and \<open>div32\<close> the
  elementwise \<open>-\<close> and \<open>/\<close>.
\<close>

record float32 =
  tensor32 :: "real \<Rightarrow> fval"
  mean32 :: "fval list \<Rightarrow> fval"
  std32 :: "fval list \<Rightarrow> fval"
  sub32 :: "fval \<Rightarrow> fval \<Rightarrow> fval"
  div32 :: "fval \<Rightarrow> fval \<Rightarrow> fval"

text \<open>
  What does not depend on rounding is written out.  The mean of an empty tensor is
  \<open>nan\<close>.  \<open>tensor.std()\<close> uses Bessel's correction by default: the squared deviations
  are divided by \<open>N - 1\<close>, so a tensor of fewer than two elements has standard deviation
  \<open>nan\<close> (\<open>0 / 0\<close>).  An operation with a \<open>nan\<close> operand gives \<open>nan\<close>.
\<close>

definition tensor_mean :: "float32 \<Rightarrow> fval list \<Rightarrow> fval" where
  "tensor_mean lib xs = (if xs = [] then NaN else mean32 lib xs)"

definition tensor_std :: "float32 \<Rightarrow> fval list \<Rightarrow> fval" where
  "tensor_std lib xs = (if length xs \<le> 1 then NaN else std32 lib xs)"

definition tensor_sub :: "float32 \<Rightarrow> fval \<Rightarrow> fval \<Rightarrow> fval" where
  "tensor_sub lib a b = (if a = NaN \<or> b = NaN then NaN else sub32 lib a b)"

definition tensor_div :: "float32 \<Rightarrow> fval \<Rightarrow> fval \<Rightarrow> fval" where
  "tensor_div lib a b = (if a = NaN \<or> b = NaN then NaN else div32 lib a b)"

text \<open>
  The tensor operations without rounding.  They agree with float32 arithmetic on every
  input on which no float32 operation rounds or overflows (small integers and their
  halves, for instance), and serve to run the program on such inputs.  A tensor with an
  element that is not finite is given mean and standard deviation \<open>nan\<close>.
\<close>

fun finite_values :: "fval list \<Rightarrow> real list option" where
  "finite_values [] = Some []"
| "finite_values (Fin a # xs) = map_option ((#) a) (finite_values xs)"
| "finite_values (_ # xs) = None"

definition mean_of :: "real list \<Rightarrow> real" where
  "mean_of xs = sum_list xs / real (length xs)"

definition variance_of :: "real list \<Rightarrow> real" where
  "variance_of xs = sum_list (map (\<lambda>x. (x - mean_of xs)\<^sup>2) xs) / real (length xs - 1)"

definition exact_arith :: float32 where
  "exact_arith =
     \<lparr>tensor32 = Fin,
      mean32 = (\<lambda>xs. case finite_values xs of Some rs \<Rightarrow> Fin (mean_of rs) | None \<Rightarrow> NaN),
      std32 = (\<lambda>xs. case finite_values xs of Some rs \<Rightarrow> Fin (sqrt (variance_of rs)) | None \<Rightarrow> NaN),
      sub32 = fsub, div32 = fdivide\<rparr>"

section \<open>Return normaliser\<close>

text \<open>
  The loop of \<open>discount_and_normailze_rewards\<close>: it walks the raw rewards backwards
  (\<open>episode_raw_rewards[::-1]\<close>), keeps \<open>cumulative_rewards\<close> and inserts each new value
  at the front of \<open>discounted_rewards\<close>.  The loop state is the pair of both variables.
\<close>

fun discount_loop :: "real \<Rightarrow> real list \<Rightarrow> real list \<times> real \<Rightarrow> real list \<times> real" where
  "discount_loop discount_rate [] (discounted, cumulative) = (discounted, cumulative)"
| "discount_loop discount_rate (reward # rest) (discounted, cumulative) =
     discount_loop discount_rate rest
       ((reward + discount_rate * cumulative) # discounted, reward + discount_rate * cumulative)"

definition discounted_rewards :: "real \<Rightarrow> real list \<Rightarrow> real list" where
  "discounted_rewards discount_rate raw = fst (discount_loop discount_rate (rev raw) ([], 0))"

text \<open>
  The second half of the function: \<open>torch.tensor(discounted_rewards)\<close>, then
  \<open>(discounted_rewards - discounted_rewards.mean()) / discounted_rewards.std()\<close>,
  elementwise, with no test of the divisor.
\<close>

definition discount_and_normailze_rewards :: "float32 \<Rightarrow> real \<Rightarrow> real list \<Rightarrow> fval list" where
  "discount_and_normailze_rewards lib discount_rate raw =
     (let G = map (tensor32 lib) (discounted_rewards discount_rate raw)
      in map (\<lambda>g. tensor_div lib (tensor_sub lib g (tensor_mean lib G)) (tensor_std lib G)) G)"

section \<open>Remote execution context\<close>

datatype error =
    NotFoundError
  | TypeError
  | RuntimeError
  | ValueError
  | DistributionError

datatype crossing = Sent nat | Retrieved nat

text \<open>
  Modelled from the spec: the remote worker (\<open>sy.VirtualWorker\<close>, here \<open>bob\<close>) and its
  operations \<open>send\<close>, \<open>get\<close> and \<open>clear_objects\<close> belong to the library and are not part
  of the notebook.  Following the specification, the context is a mapping from opaque
  handles to the values it owns; \<open>send\<close> moves a value in under a new handle, \<open>retrieve\<close>
  moves it out and destroys the remote copy, failing with \<open>NotFoundError\<close> for a handle
  that is unknown or was already retrieved, and \<open>clear\<close> destroys everything owned.
  Sends and retrieves are the boundary crossings; the context keeps a log of them, and
  counts the calls of \<open>clear\<close>.
\<close>

record 'v worker =
  objects :: "nat \<rightharpoonup> 'v"
  next_handle :: nat
  crossings :: "crossing list"
  clear_calls :: nat

text \<open>Modelled from the spec: a worker that has just been created owns nothing.\<close>

definition empty_worker :: "'v worker" where
  "empty_worker = \<lparr>objects = Map.empty, next_handle = 0, crossings = [], clear_calls = 0\<rparr>"

text \<open>
  Modelled from the spec: \<open>send\<close> (the library's \<open>tensor.send(bob)\<close> and
  \<open>policy.send(bob)\<close>) moves the value into the context, allocates remote storage for
  it and returns the new handle.
\<close>

definition send :: "'v \<Rightarrow> 'v worker \<Rightarrow> nat \<times> 'v worker" where
  "send v w =
     (let h = next_handle w
      in (h, w\<lparr>objects := (objects w)(h \<mapsto> v), next_handle := Suc h,
                crossings := crossings w @ [Sent h]\<rparr>))"

text \<open>
  Modelled from the spec: \<open>retrieve\<close> (the library's \<open>pointer.get()\<close>) moves the value
  back, destroys the remote copy and fails with \<open>NotFoundError\<close> when the handle is
  unknown or was already retrieved.
\<close>

definition retrieve :: "nat \<Rightarrow> 'v worker \<Rightarrow> error + ('v \<times> 'v worker)" where
  "retrieve h w =
     (case objects w h of
        None \<Rightarrow> Inl NotFoundError
      | Some v \<Rightarrow>
          Inr (v, w\<lparr>objects := (objects w)(h := None),
                    crossings := crossings w @ [Retrieved h]\<rparr>))"

fun is_retrieval :: "crossing \<Rightarrow> bool" where
  "is_retrieval (Retrieved h) = True"
| "is_retrieval (Sent h) = False"

text \<open>
  Modelled from the spec: \<open>clear\<close> (the library's \<open>bob.clear_objects()\<close>) destroys
  everything the context owns; \<open>owned_count\<close> is the introspection count of what it owns.
\<close>

definition clear :: "'v worker \<Rightarrow> 'v worker" where
  "clear w = w\<lparr>objects := Map.empty, clear_calls := Suc (clear_calls w)\<rparr>"

definition owned_count :: "'v worker \<Rightarrow> nat" where
  "owned_count w = card (dom (objects w))"

text \<open>Sending a sequence of values, one after the other.\<close>

fun send_all :: "'v list \<Rightarrow> 'v worker \<Rightarrow> nat list \<times> 'v worker" where
  "send_all [] w = ([], w)"
| "send_all (v # vs) w =
     (case send v w of (h, w1) \<Rightarrow> (case send_all vs w1 of (hs, w2) \<Rightarrow> (h # hs, w2)))"

section \<open>Policy model\<close>

type_synonym tensor = "real list"

text \<open>
  The class \<open>Policy\<close>: two linear layers (\<open>nn.Linear(4, 4)\<close> and \<open>nn.Linear(4, 2)\<close>), a
  rectifier between them and a softmax at the end.  The batch dimension added by
  \<open>unsqueeze(0)\<close> always has size one and is left out.
\<close>

record params =
  input_weight :: "real list list"
  input_bias :: "real list"
  output_weight :: "real list list"
  output_bias :: "real list"

definition nn_Linear :: "real list list \<Rightarrow> real list \<Rightarrow> tensor \<Rightarrow> tensor" where
  "nn_Linear weight bias x = map2 (\<lambda>row b. sum_list (map2 (*) row x) + b) weight bias"

definition relu :: "tensor \<Rightarrow> tensor" where
  "relu x = map (max 0) x"

definition softmax :: "tensor \<Rightarrow> tensor" where
  "softmax x = map (\<lambda>a. exp a / sum_list (map exp x)) x"

definition forward :: "params \<Rightarrow> tensor \<Rightarrow> tensor" where
  "forward p x =
     softmax (nn_Linear (output_weight p) (output_bias p)
       (relu (nn_Linear (input_weight p) (input_bias p) x)))"

datatype obj = TensorObj tensor | ModelObj params

text \<open>
  Modelled from the spec: calling a model that lives on the worker with a pointer to a
  tensor that lives there too runs the forward pass remotely and leaves the result on
  the worker under a new handle.  Nothing crosses the boundary.
\<close>

definition apply_model :: "nat \<Rightarrow> nat \<Rightarrow> obj worker \<Rightarrow> error + (nat \<times> obj worker)" where
  "apply_model model_handle input_handle w =
     (case objects w model_handle of
        Some (ModelObj p) \<Rightarrow>
          (case objects w input_handle of
             Some (TensorObj x) \<Rightarrow>
               (let h = next_handle w
                in Inr (h, w\<lparr>objects := (objects w)(h \<mapsto> TensorObj (forward p x)),
                             next_handle := Suc h\<rparr>))
           | _ \<Rightarrow> Inl NotFoundError)
      | _ \<Rightarrow> Inl NotFoundError)"

section \<open>Training program\<close>

text \<open>
  An element of \<open>policy.episode_log_probs\<close> is the tensor \<open>m.log_prob(action)\<close>: its
  value, and what its computation graph records of where it comes from, the observation
  the policy was applied to and the action that was drawn.
\<close>

record log_prob =
  lp_value :: real
  lp_observation :: tensor
  lp_action :: nat

text \<open>
  The collaborators the notebook calls but does not define: the gym environment
  (\<open>env.reset()\<close>, \<open>env.step(action)\<close>), the categorical sampler (\<open>Categorical(probs)\<close>,
  \<open>m.sample()\<close>, \<open>m.log_prob(action)\<close>, drawing from a random state), the gradient
  step (\<open>policy_loss.backward()\<close> followed by \<open>optimizer.step()\<close>), and the float32
  tensor operations of the normaliser.  The sampler and the gradient step may raise.
  The gradient step is given the parameters, the terms of the loss (each log-probability
  with the score it is multiplied by) and the value of the loss.
\<close>

record ('e, 'r) collab =
  tensor_ops :: float32
  env_reset :: "'e \<Rightarrow> 'e \<times> tensor"
  env_step :: "'e \<Rightarrow> nat \<Rightarrow> 'e \<times> tensor \<times> real \<times> bool"
  sample :: "'r \<Rightarrow> tensor \<Rightarrow> error + (nat \<times> real \<times> 'r)"
  backward_step :: "params \<Rightarrow> (log_prob \<times> fval) list \<Rightarrow> fval \<Rightarrow> error + params"

text \<open>
  The module-level variables.  After \<open>policy.send(bob)\<close> the local \<open>policy\<close> object
  holds a pointer to the model on the worker, together with the two per-episode lists.
\<close>

record ('e, 'r) state =
  bob :: "obj worker"
  policy :: nat
  episode_log_probs :: "log_prob list"
  episode_raw_rewards :: "real list"
  total_rewards :: "real list"
  env :: 'e
  rng :: 'r

text \<open>
  \<open>select_action\<close>.  An exception leaves the variables as they are at the point where it
  is raised, so every result carries the state.
\<close>

definition select_action ::
  "('e, 'r) collab \<Rightarrow> tensor \<Rightarrow> ('e, 'r) state \<Rightarrow> (error + nat) \<times> ('e, 'r) state" where
  "select_action c observation s =
     (case send (TensorObj observation) (bob s) of (state_ptr, w1) \<Rightarrow>
        (case apply_model (policy s) state_ptr w1 of
           Inl e \<Rightarrow> (Inl e, s\<lparr>bob := w1\<rparr>)
         | Inr (probs_ptr, w2) \<Rightarrow>
             (case retrieve probs_ptr w2 of
                Inl e \<Rightarrow> (Inl e, s\<lparr>bob := w2\<rparr>)
              | Inr (ModelObj _, w3) \<Rightarrow> (Inl TypeError, s\<lparr>bob := w3\<rparr>)
              | Inr (TensorObj probs, w3) \<Rightarrow>
                  (case sample c (rng s) probs of
                     Inl e \<Rightarrow> (Inl e, s\<lparr>bob := w3\<rparr>)
                   | Inr (action, log_prob, rng') \<Rightarrow>
                       (let s4 = s\<lparr>bob := w3, rng := rng',
                                   episode_log_probs := episode_log_probs s @
                                     [\<lparr>lp_value = log_prob, lp_observation = observation,
                                       lp_action = action\<rparr>]\<rparr>
                        in case retrieve state_ptr w3 of
                             Inl e \<Rightarrow> (Inl e, s4)
                           | Inr (_, w5) \<Rightarrow> (Inr action, s4\<lparr>bob := w5\<rparr>))))))"

text \<open>
  \<open>update_policy\<close>.  \<open>torch.cat\<close> raises on an empty list.  The two \<open>del\<close> statements are
  the last ones of the function, so they run only when nothing before them has raised.
\<close>

definition update_policy ::
  "('e, 'r) collab \<Rightarrow> real \<Rightarrow> ('e, 'r) state \<Rightarrow> (error + unit) \<times> ('e, 'r) state" where
  "update_policy c discount_rate s =
     (let scores = discount_and_normailze_rewards (tensor_ops c) discount_rate
                     (episode_raw_rewards s);
          policy_loss = map2 (\<lambda>log_prob action_score.
                                 fmul (fneg (Fin (lp_value log_prob))) action_score)
                          (episode_log_probs s) scores
      in case objects (bob s) (policy s) of
           Some (ModelObj p) \<Rightarrow>
             if policy_loss = [] then (Inl RuntimeError, s)
             else (case backward_step c p (zip (episode_log_probs s) scores)
                          (foldl fadd (Fin 0) policy_loss) of
                     Inl e \<Rightarrow> (Inl e, s)
                   | Inr p' \<Rightarrow>
                       (Inr (),
                        s\<lparr>bob := (bob s)\<lparr>objects := (objects (bob s))(policy s \<mapsto> ModelObj p')\<rparr>,
                          episode_log_probs := [], episode_raw_rewards := []\<rparr>))
         | _ \<Rightarrow> (Inl NotFoundError, s))"

text \<open>
  The inner loop \<open>for step in range(n_steps)\<close> of the training cell; the first argument
  counts the iterations that are left, \<open>taken\<close> those that were made.
\<close>

fun step_loop ::
  "('e, 'r) collab \<Rightarrow> nat \<Rightarrow> tensor \<Rightarrow> real \<Rightarrow> nat \<Rightarrow> ('e, 'r) state
     \<Rightarrow> (error + real \<times> nat) \<times> ('e, 'r) state" where
  "step_loop c 0 observation episode_rewards taken s = (Inr (episode_rewards, taken), s)"
| "step_loop c (Suc n) observation episode_rewards taken s =
     (case select_action c observation s of
        (Inl e, s1) \<Rightarrow> (Inl e, s1)
      | (Inr action, s1) \<Rightarrow>
          (case env_step c (env s1) action of
             (env', observation', reward, done) \<Rightarrow>
               (let s2 = s1\<lparr>env := env',
                           episode_raw_rewards := episode_raw_rewards s1 @ [reward]\<rparr>
                in if done then (Inr (episode_rewards + reward, Suc taken), s2)
                   else step_loop c n observation' (episode_rewards + reward) (Suc taken) s2)))"

text \<open>
  One pass of the outer loop up to the call of \<open>update_policy\<close>: reset, inner loop,
  \<open>total_rewards.append(episode_rewards)\<close>.  The result is the number of steps taken.
\<close>

definition collect_episode ::
  "('e, 'r) collab \<Rightarrow> nat \<Rightarrow> ('e, 'r) state \<Rightarrow> (error + nat) \<times> ('e, 'r) state" where
  "collect_episode c n_steps s =
     (case env_reset c (env s) of
        (env0, observation) \<Rightarrow>
          (case step_loop c n_steps observation 0 0 (s\<lparr>env := env0\<rparr>) of
             (Inl e, s1) \<Rightarrow> (Inl e, s1)
           | (Inr (episode_rewards, taken), s1) \<Rightarrow>
               (Inr taken, s1\<lparr>total_rewards := total_rewards s1 @ [episode_rewards]\<rparr>)))"

definition run_episode ::
  "('e, 'r) collab \<Rightarrow> real \<Rightarrow> nat \<Rightarrow> ('e, 'r) state \<Rightarrow> (error + unit) \<times> ('e, 'r) state" where
  "run_episode c discount_rate n_steps s =
     (case collect_episode c n_steps s of
        (Inl e, s1) \<Rightarrow> (Inl e, s1)
      | (Inr _, s1) \<Rightarrow> update_policy c discount_rate s1)"

fun episode_loop ::
  "('e, 'r) collab \<Rightarrow> real \<Rightarrow> nat \<Rightarrow> nat \<Rightarrow> ('e, 'r) state
     \<Rightarrow> (error + unit) \<times> ('e, 'r) state" where
  "episode_loop c discount_rate 0 n_steps s = (Inr (), s)"
| "episode_loop c discount_rate (Suc n) n_steps s =
     (case run_episode c discount_rate n_steps s of
        (Inl e, s1) \<Rightarrow> (Inl e, s1)
      | (Inr _, s1) \<Rightarrow> episode_loop c discount_rate n n_steps s1)"

text \<open>
  The last line: \<open>np.mean(total_rewards)\<close> and \<open>np.max(total_rewards)\<close>; \<open>np.max\<close> raises
  on an empty list.
\<close>

definition report :: "real list \<Rightarrow> error + real \<times> real" where
  "report totals =
     (case totals of
        [] \<Rightarrow> Inl ValueError
      | x # xs \<Rightarrow> Inr (sum_list totals / real (length totals), fold max xs x))"

text \<open>
  The variables when the first episode starts: the worker is new, the policy has just
  been sent to it (\<open>policy.send(bob)\<close>), and the three lists are empty.
\<close>

definition initial_state :: "params \<Rightarrow> 'e \<Rightarrow> 'r \<Rightarrow> ('e, 'r) state" where
  "initial_state p0 env0 rng0 =
     (case send (ModelObj p0) empty_worker of
        (h, w) \<Rightarrow>
          \<lparr>bob = w, policy = h, episode_log_probs = [], episode_raw_rewards = [],
           total_rewards = [], env = env0, rng = rng0\<rparr>)"

text \<open>
  The training cell: \<open>policy.send(bob)\<close>, the episodes, then \<open>policy.get()\<close>,
  \<open>bob.clear_objects()\<close> and the report.  Nothing is caught: the first exception ends the
  run where it is raised.
\<close>

definition train ::
  "('e, 'r) collab \<Rightarrow> real \<Rightarrow> nat \<Rightarrow> nat \<Rightarrow> params \<Rightarrow> 'e \<Rightarrow> 'r
     \<Rightarrow> (error + real \<times> real) \<times> ('e, 'r) state" where
  "train c discount_rate n_episodes n_steps p0 env0 rng0 =
     (case episode_loop c discount_rate n_episodes n_steps (initial_state p0 env0 rng0) of
        (Inl e, s1) \<Rightarrow> (Inl e, s1)
      | (Inr _, s1) \<Rightarrow>
          (case retrieve (policy s1) (bob s1) of
             Inl e \<Rightarrow> (Inl e, s1)
           | Inr (_, w2) \<Rightarrow>
               (let s2 = s1\<lparr>bob := clear w2\<rparr>
                in case report (total_rewards s2) of
                     Inl e \<Rightarrow> (Inl e, s2)
                   | Inr r \<Rightarrow> (Inr r, s2))))"

text \<open>The notebook's constants: 500 episodes of at most 1000 steps, discount rate 0.95.\<close>

definition notebook_run ::
  "('e, 'r) collab \<Rightarrow> params \<Rightarrow> 'e \<Rightarrow> 'r \<Rightarrow> (error + real \<times> real) \<times> ('e, 'r) state" where
  "notebook_run c p0 env0 rng0 = train c (95 / 100) 500 1000 p0 env0 rng0"

section \<open>Gradient step\<close>

text \<open>
  Modelled from the spec: the gradient step of the policy update.  The notebook calls
  \<open>policy_loss.backward()\<close> and \<open>optimizer.step()\<close> of the library; the specification
  (4.5) says what they do: the loss is the sum over the steps of
  \<open>- log_prob\<^sub>t * G'\<^sub>t\<close>, and one step of plain gradient descent with a fixed learning
  rate is applied to the parameters, using the gradient of this scalar with respect to
  them.  Arithmetic is exact here.

  The parameters are addressed by coordinates.  As a function of the parameters, a
  log-probability is the logarithm of the probability that \<open>forward\<close> gives to the
  recorded action at the recorded observation, and the loss is the sum that
  \<open>update_policy\<close> computes, with these log-probabilities.
\<close>

datatype coord = InputWeight nat nat | InputBias nat | OutputWeight nat nat | OutputBias nat

fun valid_coord :: "params \<Rightarrow> coord \<Rightarrow> bool" where
  "valid_coord p (InputWeight r k) \<longleftrightarrow>
     r < length (input_weight p) \<and> k < length (input_weight p ! r)"
| "valid_coord p (InputBias k) \<longleftrightarrow> k < length (input_bias p)"
| "valid_coord p (OutputWeight r k) \<longleftrightarrow>
     r < length (output_weight p) \<and> k < length (output_weight p ! r)"
| "valid_coord p (OutputBias k) \<longleftrightarrow> k < length (output_bias p)"

fun get_coord :: "params \<Rightarrow> coord \<Rightarrow> real" where
  "get_coord p (InputWeight r k) = input_weight p ! r ! k"
| "get_coord p (InputBias k) = input_bias p ! k"
| "get_coord p (OutputWeight r k) = output_weight p ! r ! k"
| "get_coord p (OutputBias k) = output_bias p ! k"

fun set_coord :: "params \<Rightarrow> coord \<Rightarrow> real \<Rightarrow> params" where
  "set_coord p (InputWeight r k) h =
     p\<lparr>input_weight := (input_weight p)[r := (input_weight p ! r)[k := h]]\<rparr>"
| "set_coord p (InputBias k) h = p\<lparr>input_bias := (input_bias p)[k := h]\<rparr>"
| "set_coord p (OutputWeight r k) h =
     p\<lparr>output_weight := (output_weight p)[r := (output_weight p ! r)[k := h]]\<rparr>"
| "set_coord p (OutputBias k) h = p\<lparr>output_bias := (output_bias p)[k := h]\<rparr>"

definition log_prob_at :: "params \<Rightarrow> log_prob \<Rightarrow> real" where
  "log_prob_at q lp = ln (forward q (lp_observation lp) ! lp_action lp)"

definition loss_at :: "(log_prob \<times> fval) list \<Rightarrow> params \<Rightarrow> fval" where
  "loss_at terms q =
     foldl fadd (Fin 0)
       (map (\<lambda>(lp, action_score). fmul (fneg (Fin (log_prob_at q lp))) action_score) terms)"

text \<open>
  Modelled from the spec: \<open>g\<close> is the gradient of \<open>L\<close> at \<open>p\<close> when each of its components
  is the derivative of \<open>L\<close> in that coordinate, the others held fixed.
\<close>

definition is_gradient :: "(params \<Rightarrow> real) \<Rightarrow> params \<Rightarrow> (coord \<Rightarrow> real) \<Rightarrow> bool" where
  "is_gradient L p g \<longleftrightarrow>
     (\<forall>i. valid_coord p i \<longrightarrow> DERIV (\<lambda>h. L (set_coord p i h)) (get_coord p i) :> g i)"

text \<open>Modelled from the spec: \<open>p - lr * g\<close>, coordinate by coordinate.\<close>

definition descend_vector :: "(nat \<Rightarrow> real) \<Rightarrow> real list \<Rightarrow> real list" where
  "descend_vector d v = map (\<lambda>(k, w). w - d k) (enumerate 0 v)"

definition descend_matrix :: "(nat \<Rightarrow> nat \<Rightarrow> real) \<Rightarrow> real list list \<Rightarrow> real list list" where
  "descend_matrix d m = map (\<lambda>(r, row). descend_vector (d r) row) (enumerate 0 m)"

definition descend :: "real \<Rightarrow> (coord \<Rightarrow> real) \<Rightarrow> params \<Rightarrow> params" where
  "descend lr g p =
     \<lparr>input_weight = descend_matrix (\<lambda>r k. lr * g (InputWeight r k)) (input_weight p),
      input_bias = descend_vector (\<lambda>k. lr * g (InputBias k)) (input_bias p),
      output_weight = descend_matrix (\<lambda>r k. lr * g (OutputWeight r k)) (output_weight p),
      output_bias = descend_vector (\<lambda>k. lr * g (OutputBias k)) (output_bias p)\<rparr>"

text \<open>
  Modelled from the spec: \<open>p'\<close> is the result of the gradient step at \<open>p\<close> for a loss with
  the given terms.  Every recorded action is one of the actions the policy has, the loss
  is a finite number for all parameters, and \<open>p'\<close> is \<open>p\<close> moved against the gradient of
  the loss.  The specification does not say what the step does when a score is not
  finite or the loss has no gradient; nothing is a result then.
\<close>

definition sgd_step :: "real \<Rightarrow> (log_prob \<times> fval) list \<Rightarrow> params \<Rightarrow> params \<Rightarrow> bool" where
  "sgd_step lr terms p p' \<longleftrightarrow>
     (\<forall>lp \<in> set (map fst terms). lp_action lp < length (forward p (lp_observation lp))) \<and>
     (\<exists>L g. (\<forall>q. loss_at terms q = Fin (L q)) \<and> is_gradient L p g \<and> p' = descend lr g p)"

text \<open>
  Modelled from the spec: a nonzero gradient step, one with a result that differs from
  the parameters it starts from.
\<close>

definition changes_parameters :: "real \<Rightarrow> (log_prob \<times> fval) list \<Rightarrow> params \<Rightarrow> bool" where
  "changes_parameters lr terms p \<longleftrightarrow> (\<exists>p'. sgd_step lr terms p p' \<and> p' \<noteq> p)"

section \<open>A stub environment\<close>

text \<open>
  A deterministic environment that always pays reward \<open>1\<close> and ends an episode after
  exactly \<open>horizon\<close> steps (its state counts the steps since the last reset), a sampler
  that always draws action \<open>0\<close>, a sampler that always fails, and gradient steps that
  leave the parameters alone or fail; the tensor operations are those without rounding.
\<close>

definition stub_reset :: "nat \<Rightarrow> nat \<times> tensor" where
  "stub_reset k = (0, [0, 0, 0, 0])"

definition stub_step :: "nat \<Rightarrow> nat \<Rightarrow> nat \<Rightarrow> nat \<times> tensor \<times> real \<times> bool" where
  "stub_step horizon k action = (Suc k, [0, 0, 0, 0], 1, Suc k = horizon)"

definition stub_sample :: "unit \<Rightarrow> tensor \<Rightarrow> error + (nat \<times> real \<times> unit)" where
  "stub_sample g probs = Inr (0, - 1, g)"

definition failing_sample :: "unit \<Rightarrow> tensor \<Rightarrow> error + (nat \<times> real \<times> unit)" where
  "failing_sample g probs = Inl DistributionError"

definition stub_backward_step ::
  "params \<Rightarrow> (log_prob \<times> fval) list \<Rightarrow> fval \<Rightarrow> error + params" where
  "stub_backward_step p terms loss = Inr p"

definition failing_backward_step ::
  "params \<Rightarrow> (log_prob \<times> fval) list \<Rightarrow> fval \<Rightarrow> error + params" where
  "failing_backward_step p terms loss = Inl RuntimeError"

definition stub_collab :: "nat \<Rightarrow> (nat, unit) collab" where
  "stub_collab horizon =
     \<lparr>tensor_ops = exact_arith,
      env_reset = stub_reset, env_step = stub_step horizon, sample = stub_sample,
      backward_step = stub_backward_step\<rparr>"

definition zero_params :: params where
  "zero_params =
     \<lparr>input_weight = replicate 4 (replicate 4 0), input_bias = replicate 4 0,
      output_weight = replicate 2 (replicate 4 0), output_bias = replicate 2 0\<rparr>"

text \<open>The start of the stub run, and the state its first episode reaches before the update.\<close>

definition stub_start :: "(nat, unit) state" where
  "stub_start = initial_state zero_params 0 ()"

definition stub_collected :: "(nat, unit) state" where
  "stub_collected = snd (collect_episode (stub_collab 5) 1000 stub_start)"

definition failing_update_collab :: "(nat, unit) collab" where
  "failing_update_collab = (stub_collab 5)\<lparr>backward_step := failing_backward_step\<rparr>"

definition failing_sample_collab :: "(nat, unit) collab" where
  "failing_sample_collab = (stub_collab 5)\<lparr>sample := failing_sample\<rparr>"






text \<open>
  Two terms with the two actions, at the stub's observation, with scores \<open>1\<close> and \<open>-1\<close>;
  their loss as a function of the parameters, and its gradient at \<open>zero_params\<close>.
\<close>

definition alternating_terms :: "(log_prob \<times> fval) list" where
  "alternating_terms =
     [(\<lparr>lp_value = - 1, lp_observation = [0, 0, 0, 0], lp_action = 0\<rparr>, Fin 1),
      (\<lparr>lp_value = - 1, lp_observation = [0, 0, 0, 0], lp_action = 1\<rparr>, Fin (- 1))]"

definition alternating_gradient :: "coord \<Rightarrow> real" where
  "alternating_gradient i =
     (case i of OutputBias k \<Rightarrow> if k = 0 then - 1 else 1 | _ \<Rightarrow> 0)"

definition alternating_loss :: "params \<Rightarrow> real" where
  "alternating_loss q = ln (forward q [0, 0, 0, 0] ! 1) - ln (forward q [0, 0, 0, 0] ! 0)"

section \<open>Invariant of a run\<close>

text \<open>
  The policy model is on the worker, under the handle the local \<open>policy\<close> object points
  to, and that handle is older than every handle the worker will hand out; the policy
  has not been retrieved and \<open>clear\<close> has not been called.
\<close>

definition resident :: "('e, 'r) state \<Rightarrow> bool" where
  "resident s \<longleftrightarrow>
     policy s < next_handle (bob s) \<and>
     (case objects (bob s) (policy s) of Some (ModelObj p) \<Rightarrow> True | _ \<Rightarrow> False) \<and>
     Retrieved (policy s) \<notin> set (crossings (bob s)) \<and> clear_calls (bob s) = 0"

section \<open>Properties of the return normaliser\<close>

subsection \<open>The discounting loop\<close>

lemma discount_loop_append:
  "discount_loop g (xs @ [r]) acc =
     (let (ds, c) = discount_loop g xs acc in ((r + g * c) # ds, r + g * c))"
  by (induction xs arbitrary: acc) (auto split: prod.splits)

lemma discounted_rewards_Nil: "discounted_rewards g [] = []"
  by (simp add: discounted_rewards_def)

lemma discount_loop_front:
  "discount_loop g xs (x # ds, x) = (ds', c') \<Longrightarrow> \<exists>ds''. ds' = c' # ds''"
  by (induction xs arbitrary: x ds) auto

lemma discount_loop_head:
  "discount_loop g xs ([], 0) = (ds', c') \<Longrightarrow> c' = (case ds' of [] \<Rightarrow> 0 | d # _ \<Rightarrow> d)"
  by (cases xs) (auto dest: discount_loop_front)

text \<open>The loop, read front to back: each return is its reward plus the discounted next return.\<close>

lemma discounted_rewards_Cons:
  "discounted_rewards g (r # rs) =
     (r + g * (case discounted_rewards g rs of [] \<Rightarrow> 0 | d # _ \<Rightarrow> d)) # discounted_rewards g rs"
proof -
  obtain ds c where loop: "discount_loop g (rev rs) ([], 0) = (ds, c)"
    by (cases "discount_loop g (rev rs) ([], 0)")
  from discount_loop_head [OF loop] have "c = (case ds of [] \<Rightarrow> 0 | d # _ \<Rightarrow> d)"
    by simp
  with loop show ?thesis
    by (simp add: discounted_rewards_def discount_loop_append)
qed

lemma length_discounted_rewards: "length (discounted_rewards g rs) = length rs"
  by (induction rs) (simp_all add: discounted_rewards_Nil discounted_rewards_Cons)

lemma discounted_rewards_eq_Nil: "discounted_rewards g rs = [] \<longleftrightarrow> rs = []"
  using length_discounted_rewards [of g rs] by (simp only: flip: length_0_conv)

lemma discounted_rewards_last: "rs \<noteq> [] \<Longrightarrow> last (discounted_rewards g rs) = last rs"
  by (induction rs)
    (auto simp add: discounted_rewards_eq_Nil discounted_rewards_Nil discounted_rewards_Cons)

lemma discounted_rewards_step:
  "Suc t < length rs \<Longrightarrow>
   discounted_rewards g rs ! t = rs ! t + g * discounted_rewards g rs ! Suc t"
proof (induction rs arbitrary: t)
  case Nil
  then show ?case by simp
next
  case (Cons r rs)
  show ?case
  proof (cases t)
    case 0
    with Cons.prems obtain d ds where "discounted_rewards g rs = d # ds"
      by (cases "discounted_rewards g rs") (use length_discounted_rewards [of g rs] in auto)
    with 0 show ?thesis by (simp add: discounted_rewards_Cons)
  next
    case (Suc k)
    with Cons show ?thesis by (simp add: discounted_rewards_Cons)
  qed
qed

text \<open>
  Claim C1.  For every non-empty reward sequence \<open>r\<^sub>1 \<dots> r\<^sub>T\<close> (in execution order) and
  every discount factor, the discounting loop yields one return per reward, with
  \<open>G\<^sub>T = r\<^sub>T\<close> and \<open>G\<^sub>t = r\<^sub>t + \<gamma> G\<^sub>t\<^sub>+\<^sub>1\<close> for every earlier step; for the rewards
  \<open>[1, 1, 1]\<close> and \<open>\<gamma> = 0.95\<close> the returns before normalisation are
  \<open>[2.8525, 1.95, 1]\<close>.  (List positions count from 0, so \<open>G\<^sub>t\<close> is element \<open>t - 1\<close>.)
\<close>

theorem discounted_rewards_recurrence:
  "(rs \<noteq> [] \<longrightarrow>
     length (discounted_rewards g rs) = length rs \<and>
     last (discounted_rewards g rs) = last rs \<and>
     (\<forall>t. Suc t < length rs \<longrightarrow>
        discounted_rewards g rs ! t = rs ! t + g * discounted_rewards g rs ! Suc t)) \<and>
   discounted_rewards (95 / 100) [1, 1, 1] = [28525 / 10000, 195 / 100, 1]"
  by (simp add: length_discounted_rewards discounted_rewards_last discounted_rewards_step
      discounted_rewards_Cons discounted_rewards_Nil)

theorem discounted_rewards_recurrence_witness:
  "[2, 3, 5 :: real] \<noteq> [] \<and>
   discounted_rewards (1 / 2) [2, 3, 5] = [19 / 4, 11 / 2, 5] \<and>
   last (discounted_rewards (1 / 2) [2, 3, 5]) = 5 \<and>
   discounted_rewards (1 / 2) [2, 3, 5] ! 0 = 2 + 1 / 2 * discounted_rewards (1 / 2) [2, 3, 5] ! 1 \<and>
   discounted_rewards (1 / 2) [2, 3, 5] ! 1 = 3 + 1 / 2 * discounted_rewards (1 / 2) [2, 3, 5] ! 2"
  using discounted_rewards_recurrence [of "[2, 3, 5]" "1 / 2"]
  by (simp add: discounted_rewards_Cons discounted_rewards_Nil)

subsection \<open>A single-step episode\<close>

text \<open>
  Claim C2, as stated, asks for a fallback when \<open>T = 1\<close> (a standard deviation of zero
  read as one, or no normalisation at all), so that the result is a finite number.  The
  function has no such branch: for the single reward \<open>1\<close> at \<open>\<gamma> = 0.95\<close> the standard
  deviation is \<open>nan\<close> and so is the normalised return.
\<close>

theorem single_step_episode_counterexample:
  "tensor_std exact_arith (map (tensor32 exact_arith) (discounted_rewards (95 / 100) [1])) = NaN \<and>
   discount_and_normailze_rewards exact_arith (95 / 100) [1] = [NaN]"
  by (simp add: discount_and_normailze_rewards_def discounted_rewards_def tensor_std_def
      tensor_div_def)

text \<open>
  Claim C2, amended.  For every single-step episode the return normaliser raises nothing
  and applies no fallback: it divides by the Bessel-corrected standard deviation of one
  value, which is \<open>0 / 0\<close>, and returns the one-element tensor \<open>[nan]\<close>, whatever the
  reward, the discount factor and the rounding of the tensor operations.
\<close>

theorem single_step_episode_yields_nan:
  "discount_and_normailze_rewards lib g [r] = [NaN]"
  by (simp add: discount_and_normailze_rewards_def discounted_rewards_def tensor_std_def
      tensor_div_def)

subsection \<open>Normalisation\<close>


lemma sum_list_abs_le:
  fixes e :: "'a \<Rightarrow> real"
  shows "\<forall>x\<in>set xs. \<bar>e x\<bar> \<le> b \<Longrightarrow> \<bar>sum_list (map e xs)\<bar> \<le> real (length xs) * b"
  by (induction xs) (auto simp add: algebra_simps)

lemma sum_list_sq_le:
  fixes e :: "'a \<Rightarrow> real"
  shows "\<forall>x\<in>set xs. \<bar>e x\<bar> \<le> b \<Longrightarrow> sum_list (map (\<lambda>x. (e x)\<^sup>2) xs) \<le> real (length xs) * b\<^sup>2"
proof (induction xs)
  case Nil
  then show ?case by simp
next
  case (Cons x xs)
  then have "\<bar>e x\<bar> \<le> b" by simp
  then have "(e x)\<^sup>2 \<le> b\<^sup>2"
    by (metis abs_le_square_iff abs_ge_zero abs_of_nonneg order_trans)
  with Cons show ?case by (simp add: algebra_simps)
qed

lemma sum_list_sq_nonneg': "0 \<le> sum_list (map (\<lambda>x. (f x :: real)\<^sup>2) xs)"
  by (induction xs) simp_all

text \<open>Sum of squared deviations from the mean.\<close>

lemma sum_list_centered:
  "xs \<noteq> [] \<Longrightarrow> sum_list (map (\<lambda>x. x - mean_of xs) xs) = 0"
proof -
  assume "xs \<noteq> []"
  have "sum_list (map (\<lambda>x. x - c) xs) = sum_list xs - real (length xs) * c" for c :: real
    by (induction xs) (simp_all add: algebra_simps)
  with \<open>xs \<noteq> []\<close> show ?thesis by (simp add: mean_of_def)
qed


lemma sum_list_shift:
  fixes h :: "'a \<Rightarrow> real"
  assumes "xs \<noteq> []"
  shows "sum_list (map (\<lambda>x. (h x - sum_list (map h xs) / real (length xs))\<^sup>2) xs) =
         sum_list (map (\<lambda>x. (h x - c)\<^sup>2) xs) -
         real (length xs) * (sum_list (map h xs) / real (length xs) - c)\<^sup>2"
proof -
  define n where "n = real (length xs)"
  define S where "S = sum_list (map h xs)"
  define T where "T = sum_list (map (\<lambda>x. (h x)\<^sup>2) xs)"
  from assms have n: "0 < n" by (simp add: n_def)
  have expand: "sum_list (map (\<lambda>x. (h x - d)\<^sup>2) xs) = T - 2 * (d * S) + n * d\<^sup>2" for d
    unfolding S_def T_def n_def by (induction xs) (simp_all add: power2_eq_square algebra_simps)
  have a1: "n * (S / n - c)\<^sup>2 = n * (S / n)\<^sup>2 - 2 * (c * S) + n * c\<^sup>2"
    using n by (simp add: power2_eq_square field_simps)
  have a2: "2 * (S / n * S) = 2 * (n * (S / n)\<^sup>2)"
    using n by (simp add: power2_eq_square field_simps)
  have "sum_list (map (\<lambda>x. (h x - S / n)\<^sup>2) xs) =
      sum_list (map (\<lambda>x. (h x - c)\<^sup>2) xs) - n * (S / n - c)\<^sup>2"
    using expand [of "S / n"] expand [of c] a1 a2 by linarith
  then show ?thesis by (simp add: S_def n_def)
qed

text \<open>
  Results that are within \<open>\<epsilon>\<close> of \<open>(x - m) / s\<close>, for any \<open>m\<close> and any positive \<open>s\<close>:
  how far their mean is from \<open>0\<close> and their variance from \<open>variance_of xs / s\<^sup>2\<close>.
\<close>

lemma normalise_tolerance:
  fixes xs :: "real list" and f :: "real \<Rightarrow> real"
  assumes len: "2 \<le> length xs" and s: "0 < s"
    and acc: "\<forall>x\<in>set xs. \<bar>f x - (x - m) / s\<bar> \<le> \<epsilon>"
  shows "\<bar>mean_of (map f xs)\<bar> \<le> \<bar>mean_of xs - m\<bar> / s + \<epsilon>"
    and "\<bar>variance_of (map f xs) - variance_of xs / s\<^sup>2\<bar> \<le>
         (\<epsilon> * (real (length xs) + real (length xs - 1) * (variance_of xs / s\<^sup>2)) +
          real (length xs) * \<epsilon>\<^sup>2) / real (length xs - 1)"
proof -
  define n where "n = real (length xs)"
  define \<mu> where "\<mu> = mean_of xs"
  define e where "e = (\<lambda>x. f x - (x - m) / s)"
  define a where "a = (\<lambda>x. (x - \<mu>) / s)"
  define c where "c = (\<mu> - m) / s"
  define A where "A = sum_list (map (\<lambda>x. (a x)\<^sup>2) xs)"
  define E where "E = sum_list (map e xs)"
  from len have ne: "xs \<noteq> []" and n: "0 < n" and n1: "0 < real (length xs - 1)"
    and n1': "real (length xs - 1) = n - 1"
    by (auto simp add: n_def)
  from acc have ebound: "\<forall>x\<in>set xs. \<bar>e x\<bar> \<le> \<epsilon>" by (simp add: e_def)
  from ne ebound have eps: "0 \<le> \<epsilon>"
    by (cases xs) (auto intro: order_trans [OF abs_ge_zero])
  have f_eq: "f x = a x + c + e x" for x
    using s by (simp add: a_def c_def e_def field_simps)
  have sum_a: "sum_list (map a xs) = 0"
  proof -
    have "sum_list (map (\<lambda>x. (x - k) / s) xs) = sum_list (map (\<lambda>x. x - k) xs) / s" for k
      by (induction xs) (simp_all add: add_divide_distrib)
    from this [of "mean_of xs"] sum_list_centered [OF ne] show ?thesis
      by (simp add: a_def \<mu>_def)
  qed
  have sum_f: "sum_list (map f xs) = n * c + E"
  proof -
    have mapf: "map f xs = map (\<lambda>x. a x + c + e x) xs"
      by (simp add: f_eq)
    have "sum_list (map f xs) = sum_list (map (\<lambda>x. a x + c + e x) xs)"
      by (simp only: mapf)
    also have "\<dots> = sum_list (map a xs) + real (length xs) * c + sum_list (map e xs)"
      by (induction xs) (simp_all add: algebra_simps)
    finally show ?thesis using sum_a by (simp add: n_def E_def)
  qed
  have Ebound: "\<bar>E\<bar> \<le> n * \<epsilon>"
    unfolding E_def n_def by (rule sum_list_abs_le [OF ebound])
  have mean_f: "mean_of (map f xs) = c + E / n"
    using n sum_f by (simp add: mean_of_def n_def field_simps)
  have "\<bar>E / n\<bar> \<le> \<epsilon>"
    using Ebound n by (simp add: field_simps)
  then have "\<bar>c + E / n\<bar> \<le> \<bar>c\<bar> + \<epsilon>" by linarith
  moreover have "\<bar>c\<bar> = \<bar>mean_of xs - m\<bar> / s"
    using s by (simp add: c_def \<mu>_def)
  ultimately show "\<bar>mean_of (map f xs)\<bar> \<le> \<bar>mean_of xs - m\<bar> / s + \<epsilon>"
    by (simp add: mean_f)
  define D where "D = sum_list (map (\<lambda>x. (f x - mean_of (map f xs))\<^sup>2) xs)"
  define C where "C = sum_list (map (\<lambda>x. a x * e x) xs)"
  define Q where "Q = sum_list (map (\<lambda>x. (e x)\<^sup>2) xs)"
  have "D = sum_list (map (\<lambda>x. (f x - c)\<^sup>2) xs) - n * (E / n)\<^sup>2"
    using sum_list_shift [OF ne, of f c] mean_f
    by (simp add: D_def mean_of_def n_def)
  moreover have "sum_list (map (\<lambda>x. (f x - c)\<^sup>2) xs) = A + 2 * C + Q"
  proof -
    have "sum_list (map (\<lambda>x. (a x + e x)\<^sup>2) xs) =
        sum_list (map (\<lambda>x. (a x)\<^sup>2) xs) + 2 * sum_list (map (\<lambda>x. a x * e x) xs) +
        sum_list (map (\<lambda>x. (e x)\<^sup>2) xs)"
      by (induction xs) (simp_all add: power2_eq_square algebra_simps)
    then show ?thesis by (simp add: f_eq A_def C_def Q_def)
  qed
  ultimately have D_eq: "D = A + 2 * C + (Q - n * (E / n)\<^sup>2)" by simp
  have rest_nonneg: "0 \<le> Q - n * (E / n)\<^sup>2"
  proof -
    have "sum_list (map (\<lambda>x. (e x - E / n)\<^sup>2) xs) = Q - n * (E / n)\<^sup>2"
      using sum_list_shift [OF ne, of e 0] by (simp add: E_def Q_def n_def)
    with sum_list_sq_nonneg' [of "\<lambda>x. e x - E / n" xs] show ?thesis by simp
  qed
  have "Q \<le> n * \<epsilon>\<^sup>2"
    unfolding Q_def n_def by (rule sum_list_sq_le [OF ebound])
  moreover have "0 \<le> n * (E / n)\<^sup>2" using n by simp
  ultimately have rest_le: "Q - n * (E / n)\<^sup>2 \<le> n * \<epsilon>\<^sup>2" by linarith
  have cross: "\<bar>2 * C\<bar> \<le> \<epsilon> * (n + A)"
  proof -
    have each: "\<bar>2 * (a x * e x)\<bar> \<le> \<epsilon> * (1 + (a x)\<^sup>2)" if "x \<in> set xs" for x
    proof -
      from that ebound have ex: "\<bar>e x\<bar> \<le> \<epsilon>" by simp
      have "0 \<le> (\<bar>a x\<bar> - 1)\<^sup>2" by simp
      then have "2 * \<bar>a x\<bar> \<le> 1 + (a x)\<^sup>2"
        by (simp add: power2_eq_square algebra_simps)
      have "\<bar>2 * (a x * e x)\<bar> = (2 * \<bar>a x\<bar>) * \<bar>e x\<bar>" by (simp add: abs_mult)
      also have "\<dots> \<le> (2 * \<bar>a x\<bar>) * \<epsilon>"
        using ex by (intro mult_left_mono) simp_all
      also have "\<dots> \<le> (1 + (a x)\<^sup>2) * \<epsilon>"
        using \<open>2 * \<bar>a x\<bar> \<le> 1 + (a x)\<^sup>2\<close> eps by (intro mult_right_mono) simp_all
      finally show ?thesis by (simp add: mult.commute)
    qed
    have "\<bar>sum_list (map (\<lambda>x. 2 * (a x * e x)) ys)\<bar> \<le>
        sum_list (map (\<lambda>x. \<epsilon> * (1 + (a x)\<^sup>2)) ys)" if "set ys \<subseteq> set xs" for ys
      using that
    proof (induction ys)
      case Nil
      then show ?case by simp
    next
      case (Cons y ys)
      then have "\<bar>2 * (a y * e y)\<bar> \<le> \<epsilon> * (1 + (a y)\<^sup>2)"
        and "\<bar>sum_list (map (\<lambda>x. 2 * (a x * e x)) ys)\<bar> \<le>
            sum_list (map (\<lambda>x. \<epsilon> * (1 + (a x)\<^sup>2)) ys)"
        using each by simp_all
      then show ?case by simp
    qed
    from this [of xs] have "\<bar>sum_list (map (\<lambda>x. 2 * (a x * e x)) xs)\<bar> \<le>
        sum_list (map (\<lambda>x. \<epsilon> * (1 + (a x)\<^sup>2)) xs)" by simp
    moreover have "sum_list (map (\<lambda>x. 2 * (a x * e x)) xs) = 2 * C"
      unfolding C_def by (induction xs) (simp_all add: algebra_simps)
    moreover have "sum_list (map (\<lambda>x. \<epsilon> * (1 + (a x)\<^sup>2)) xs) = \<epsilon> * (n + A)"
      unfolding A_def n_def by (induction xs) (simp_all add: algebra_simps)
    ultimately show ?thesis by simp
  qed
  have A_eq: "A = (n - 1) * (variance_of xs / s\<^sup>2)"
  proof -
    have "sum_list (map (\<lambda>x. ((x - k) / s)\<^sup>2) xs) =
        sum_list (map (\<lambda>x. (x - k)\<^sup>2) xs) / s\<^sup>2" for k
      by (induction xs) (simp_all add: power_divide add_divide_distrib)
    then have "A = sum_list (map (\<lambda>x. (x - \<mu>)\<^sup>2) xs) / s\<^sup>2"
      by (simp add: A_def a_def)
    also have "sum_list (map (\<lambda>x. (x - \<mu>)\<^sup>2) xs) = (n - 1) * variance_of xs"
      using n1 by (simp add: variance_of_def \<mu>_def n1' [symmetric])
    finally show ?thesis by simp
  qed
  have dev: "\<bar>D - A\<bar> \<le> \<epsilon> * (n + A) + n * \<epsilon>\<^sup>2"
    using D_eq cross rest_nonneg rest_le by (simp add: abs_le_iff)
  have pos: "0 < n - 1" using n1 n1' by simp
  from dev have "\<bar>D - A\<bar> / (n - 1) \<le> (\<epsilon> * (n + A) + n * \<epsilon>\<^sup>2) / (n - 1)"
    using pos by (simp add: divide_right_mono)
  moreover have "\<bar>(D - A) / (n - 1)\<bar> = \<bar>D - A\<bar> / (n - 1)"
    using pos by (simp add: abs_divide)
  moreover have "variance_of (map f xs) - variance_of xs / s\<^sup>2 = (D - A) / (n - 1)"
    using pos n1' by (simp add: variance_of_def D_def A_eq o_def diff_divide_distrib)
  ultimately have "\<bar>variance_of (map f xs) - variance_of xs / s\<^sup>2\<bar> \<le>
      (\<epsilon> * (n + (n - 1) * (variance_of xs / s\<^sup>2)) + n * \<epsilon>\<^sup>2) / (n - 1)"
    by (simp only: A_eq)
  then show "\<bar>variance_of (map f xs) - variance_of xs / s\<^sup>2\<bar> \<le>
         (\<epsilon> * (real (length xs) + real (length xs - 1) * (variance_of xs / s\<^sup>2)) +
          real (length xs) * \<epsilon>\<^sup>2) / real (length xs - 1)"
    by (simp only: n1' n_def)
qed


text \<open>
  Claim C3, as stated, covers every episode of two or more steps.  It fails when all
  discounted returns are equal: for the rewards \<open>[0, 0]\<close>, where no operation rounds, the
  standard deviation is zero, every quotient is \<open>0 / 0\<close>, and the normalised returns are
  \<open>nan\<close>, which have neither mean zero nor unit variance.
\<close>

theorem equal_returns_counterexample:
  "tensor_std exact_arith (map (tensor32 exact_arith) (discounted_rewards (95 / 100) [0, 0])) = Fin 0 \<and>
   discount_and_normailze_rewards exact_arith (95 / 100) [0, 0] = [NaN, NaN]"
  by (simp add: discount_and_normailze_rewards_def discounted_rewards_def tensor_std_def
      tensor_mean_def tensor_sub_def tensor_div_def exact_arith_def fsub_def mean_of_def
      variance_of_def)

text \<open>
  Claim C3, amended.  Take an episode of \<open>T \<ge> 2\<close> steps in which the float32 tensor of
  discounted returns \<open>G\<close> has finite elements, its \<open>mean()\<close> is a finite \<open>m\<close>, its
  \<open>std()\<close> is a finite \<open>s > 0\<close>, and every elementwise \<open>(G\<^sub>t - m) / s\<close> is finite and
  within \<open>\<epsilon>\<close> of the exact quotient.  Then the normalised returns are finite, their
  mean is within \<open>|mean G - m| / s + \<epsilon>\<close> of \<open>0\<close>, and their variance is within
  \<open>(\<epsilon> (T + (T - 1) \<rho>) + T \<epsilon>\<^sup>2) / (T - 1)\<close> of \<open>\<rho> = var G / s\<^sup>2\<close>; here mean and
  variance are the exact ones, the variance with divisor \<open>T - 1\<close> as in \<open>std()\<close>.  When
  nothing rounds (\<open>\<epsilon> = 0\<close>, \<open>m\<close> the exact mean, \<open>s\<close> the exact standard deviation) the
  mean is \<open>0\<close> and the variance \<open>1\<close>.
\<close>

theorem normalised_returns_standardised:
  assumes len: "2 \<le> length rs"
    and conv: "map (tensor32 lib) (discounted_rewards g rs) = map Fin xs"
    and mean: "tensor_mean lib (map Fin xs) = Fin m"
    and std: "tensor_std lib (map Fin xs) = Fin s" and pos: "0 < s"
    and elt: "\<forall>x\<in>set xs. \<exists>y. tensor_div lib (tensor_sub lib (Fin x) (Fin m)) (Fin s) = Fin y \<and>
                \<bar>y - (x - m) / s\<bar> \<le> \<epsilon>"
  shows "\<exists>ys. discount_and_normailze_rewards lib g rs = map Fin ys \<and> length ys = length rs \<and>
           \<bar>mean_of ys\<bar> \<le> \<bar>mean_of xs - m\<bar> / s + \<epsilon> \<and>
           \<bar>variance_of ys - variance_of xs / s\<^sup>2\<bar> \<le>
             (\<epsilon> * (real (length rs) + real (length rs - 1) * (variance_of xs / s\<^sup>2)) +
              real (length rs) * \<epsilon>\<^sup>2) / real (length rs - 1) \<and>
           (\<epsilon> = 0 \<and> m = mean_of xs \<and> s = sqrt (variance_of xs) \<longrightarrow>
              mean_of ys = 0 \<and> variance_of ys = 1)"
proof -
  from conv have lenx: "length xs = length rs"
    using length_discounted_rewards [of g rs] by (metis length_map)
  with len have lenx2: "2 \<le> length xs" by simp
  from elt obtain f where
    f: "\<forall>x\<in>set xs. tensor_div lib (tensor_sub lib (Fin x) (Fin m)) (Fin s) = Fin (f x) \<and>
          \<bar>f x - (x - m) / s\<bar> \<le> \<epsilon>"
    using bchoice [of "set xs" "\<lambda>x y. tensor_div lib (tensor_sub lib (Fin x) (Fin m)) (Fin s) = Fin y \<and>
                \<bar>y - (x - m) / s\<bar> \<le> \<epsilon>"] by blast
  then have acc: "\<forall>x\<in>set xs. \<bar>f x - (x - m) / s\<bar> \<le> \<epsilon>" by simp
  have result: "discount_and_normailze_rewards lib g rs = map Fin (map f xs)"
    using f by (simp add: discount_and_normailze_rewards_def Let_def conv mean std)
  note bounds = normalise_tolerance [OF lenx2 pos acc]
  have exact: "mean_of (map f xs) = 0 \<and> variance_of (map f xs) = 1"
    if "\<epsilon> = 0 \<and> m = mean_of xs \<and> s = sqrt (variance_of xs)"
  proof -
    from that have e0: "\<epsilon> = 0" and m: "m = mean_of xs" and s: "s = sqrt (variance_of xs)"
      by simp_all
    from pos s have "0 < variance_of xs" by simp
    then have ratio: "variance_of xs / s\<^sup>2 = 1" by (simp add: s)
    from bounds(1) e0 m have "mean_of (map f xs) = 0" by simp
    moreover from bounds(2) e0 ratio have "variance_of (map f xs) = 1" by simp
    ultimately show ?thesis by simp
  qed
  from result bounds exact lenx show ?thesis
    by (intro exI [of _ "map f xs"]) simp
qed

lemma sqrt_49: "sqrt 49 = 7"
  by (rule real_sqrt_unique) simp_all

theorem normalised_returns_standardised_witness:
  "2 \<le> length [9 / 2, 13, 0 :: real] \<and>
   map (tensor32 exact_arith) (discounted_rewards (1 / 2) [9 / 2, 13, 0]) = map Fin [11, 13, 0] \<and>
   tensor_mean exact_arith (map Fin [11, 13, 0]) = Fin 8 \<and>
   tensor_std exact_arith (map Fin [11, 13, 0]) = Fin 7 \<and> (0 :: real) < 7 \<and>
   (\<exists>ys. discount_and_normailze_rewards exact_arith (1 / 2) [9 / 2, 13, 0] = map Fin ys \<and>
         length ys = 3 \<and> mean_of ys = 0 \<and> variance_of ys = 1)"
proof -
  have len: "2 \<le> length [9 / 2, 13, 0 :: real]" by simp
  have conv: "map (tensor32 exact_arith) (discounted_rewards (1 / 2) [9 / 2, 13, 0]) =
      map Fin [11, 13, 0]"
    by (simp add: discounted_rewards_Cons discounted_rewards_Nil exact_arith_def)
  have m: "mean_of [11, 13, 0] = 8" by (simp add: mean_of_def)
  have v: "variance_of [11, 13, 0] = 49" by (simp add: variance_of_def m power2_eq_square)
  have mean: "tensor_mean exact_arith (map Fin [11, 13, 0]) = Fin 8"
    by (simp add: tensor_mean_def exact_arith_def m)
  have std: "tensor_std exact_arith (map Fin [11, 13, 0]) = Fin 7"
    by (simp add: tensor_std_def exact_arith_def v sqrt_49)
  have elt: "\<forall>x\<in>set [11, 13, 0 :: real].
      \<exists>y. tensor_div exact_arith (tensor_sub exact_arith (Fin x) (Fin 8)) (Fin 7) = Fin y \<and>
          \<bar>y - (x - 8) / 7\<bar> \<le> 0"
  proof
    fix x :: real
    have "tensor_div exact_arith (tensor_sub exact_arith (Fin x) (Fin 8)) (Fin 7) =
        Fin ((x - 8) / 7)"
      by (simp add: tensor_div_def tensor_sub_def exact_arith_def fsub_def)
    then show "\<exists>y. tensor_div exact_arith (tensor_sub exact_arith (Fin x) (Fin 8)) (Fin 7) = Fin y \<and>
          \<bar>y - (x - 8) / 7\<bar> \<le> 0"
      by (intro exI [of _ "(x - 8) / 7"]) simp
  qed
  from normalised_returns_standardised [OF len conv mean std _ elt] m v sqrt_49
  have "\<exists>ys. discount_and_normailze_rewards exact_arith (1 / 2) [9 / 2, 13, 0] = map Fin ys \<and>
         length ys = 3 \<and> mean_of ys = 0 \<and> variance_of ys = 1"
    by (auto simp add: numeral_3_eq_3)
  with len conv mean std show ?thesis by simp
qed

section \<open>Properties of the remote execution context\<close>

lemma send_all_next_handle:
  "send_all vs w = (hs, w1) \<Longrightarrow> next_handle w1 = next_handle w + length vs"
  by (induction vs arbitrary: w hs w1) (auto simp add: send_def Let_def split: prod.splits)

lemma send_all_keeps_older:
  "send_all vs w = (hs, w1) \<Longrightarrow> k < next_handle w \<Longrightarrow> objects w1 k = objects w k"
proof (induction vs arbitrary: w hs w1)
  case Nil
  then show ?case by simp
next
  case (Cons v vs)
  then show ?case
    by (fastforce simp add: send_def Let_def split: prod.splits)
qed

lemma send_all_handles:
  "send_all vs w = (hs, w1) \<Longrightarrow> i < length vs \<Longrightarrow> hs ! i = next_handle w + i"
proof (induction vs arbitrary: w hs w1 i)
  case Nil
  then show ?case by simp
next
  case (Cons v vs)
  then show ?case
    by (cases i) (auto simp add: send_def Let_def split: prod.splits)
qed

lemma send_all_objects:
  "send_all vs w = (hs, w1) \<Longrightarrow> i < length vs \<Longrightarrow>
     objects w1 (next_handle w + i) = Some (vs ! i)"
proof (induction vs arbitrary: w hs w1 i)
  case Nil
  then show ?case by simp
next
  case (Cons v vs)
  obtain h wa where sent: "send v w = (h, wa)" by (cases "send v w")
  obtain hs' where rest: "send_all vs wa = (hs', w1)"
    using Cons.prems(1) sent by (auto split: prod.splits)
  from sent have h: "h = next_handle w" and na: "next_handle wa = Suc (next_handle w)"
    and oa: "objects wa h = Some v"
    by (auto simp add: send_def Let_def)
  show ?case
  proof (cases i)
    case 0
    from send_all_keeps_older [OF rest, of h] have "objects w1 h = objects wa h"
      by (simp add: na h)
    with 0 h oa show ?thesis by simp
  next
    case (Suc j)
    with Cons.prems(2) have "j < length vs" by simp
    from Cons.IH [OF rest this] Suc na show ?thesis by simp
  qed
qed

text \<open>
  Claim C5.  For every sequence of values sent to the remote execution context, from any
  state of the context, a later \<open>retrieve\<close> on the handle of any one of them returns
  exactly the value that was sent under that handle; afterwards the context no longer
  owns the handle, and a second \<open>retrieve\<close> on it fails with \<open>NotFoundError\<close> instead of
  returning a value.
\<close>

theorem retrieve_after_send:
  "i < length vs \<Longrightarrow>
     \<exists>w2. retrieve (fst (send_all vs w) ! i) (snd (send_all vs w)) = Inr (vs ! i, w2) \<and>
          objects w2 (fst (send_all vs w) ! i) = None \<and>
          retrieve (fst (send_all vs w) ! i) w2 = Inl NotFoundError"
proof -
  assume i: "i < length vs"
  obtain hs w1 where sa: "send_all vs w = (hs, w1)" by (cases "send_all vs w")
  from send_all_handles [OF sa i] send_all_objects [OF sa i] show ?thesis
    by (simp add: sa retrieve_def)
qed

theorem retrieve_after_send_witness:
  "(1 :: nat) < length [10, 20, 30 :: int] \<and>
   fst (send_all [10, 20, 30 :: int] empty_worker) = [0, 1, 2] \<and>
   (\<exists>w2. retrieve 1 (snd (send_all [10, 20, 30 :: int] empty_worker)) = Inr (20, w2) \<and>
         objects w2 1 = None \<and> retrieve 1 w2 = Inl NotFoundError)"
  using retrieve_after_send [of 1 "[10, 20, 30 :: int]" empty_worker]
  by (simp add: send_def empty_worker_def Let_def)

lemmas select_action_unfold =
  select_action_def send_def apply_model_def retrieve_def Let_def

subsection \<open>Action selection\<close>

lemma select_action_log:
  "select_action c observation s = (Inr action, s') \<Longrightarrow>
     crossings (bob s') =
       crossings (bob s) @
         [Sent (next_handle (bob s)), Retrieved (Suc (next_handle (bob s))),
          Retrieved (next_handle (bob s))]"
  by (auto simp add: select_action_unfold
      split: sum.splits option.splits obj.splits prod.splits if_splits)

text \<open>
  Claim C6, amended.  Every action-selection step that returns an action crosses the
  ownership boundary exactly three times and in this order: one send (the observation,
  out of the local context), then two retrieves (the action probabilities, then the
  observation itself, back in); nothing else moves between the two contexts during the
  step.
\<close>

theorem select_action_crossings:
  "select_action c observation s = (Inr action, s') \<Longrightarrow>
     crossings (bob s') =
       crossings (bob s) @
         [Sent (next_handle (bob s)), Retrieved (Suc (next_handle (bob s))),
          Retrieved (next_handle (bob s))] \<and>
     length (filter is_retrieval (crossings (bob s'))) =
       length (filter is_retrieval (crossings (bob s))) + 2 \<and>
     length (filter (\<lambda>x. \<not> is_retrieval x) (crossings (bob s'))) =
       length (filter (\<lambda>x. \<not> is_retrieval x) (crossings (bob s))) + 1"
  by (simp add: select_action_log)

text \<open>
  Claim C6, as stated, allows one retrieve per step.  The step of the stub run makes
  two: the log of the worker, which holds the send of the policy before the step, has
  one more send and two retrieves after it.
\<close>

theorem select_action_two_retrievals_counterexample:
  "fst (select_action (stub_collab 5) [0, 0, 0, 0] stub_start) = Inr 0 \<and>
   crossings (bob stub_start) = [Sent 0] \<and>
   crossings (bob (snd (select_action (stub_collab 5) [0, 0, 0, 0] stub_start))) =
     [Sent 0, Sent 1, Retrieved 2, Retrieved 1] \<and>
   length (filter is_retrieval
     (crossings (bob (snd (select_action (stub_collab 5) [0, 0, 0, 0] stub_start))))) = 2"
  by (simp add: select_action_unfold stub_collab_def stub_start_def initial_state_def empty_worker_def stub_sample_def)

theorem select_action_crossings_witness:
  "select_action (stub_collab 5) [0, 0, 0, 0] stub_start =
     (Inr 0, snd (select_action (stub_collab 5) [0, 0, 0, 0] stub_start)) \<and>
   crossings (bob (snd (select_action (stub_collab 5) [0, 0, 0, 0] stub_start))) =
     [Sent 0] @ [Sent 1, Retrieved 2, Retrieved 1]"
proof -
  have run: "select_action (stub_collab 5) [0, 0, 0, 0] stub_start =
     (Inr 0, snd (select_action (stub_collab 5) [0, 0, 0, 0] stub_start))"
    by (simp add: select_action_unfold stub_collab_def stub_start_def initial_state_def
        empty_worker_def stub_sample_def)
  have "next_handle (bob stub_start) = 1" "crossings (bob stub_start) = [Sent 0]"
    by (simp_all add: stub_start_def initial_state_def send_def empty_worker_def)
  with select_action_crossings [OF run] run show ?thesis by simp
qed

subsection \<open>What a step, an episode and an update change\<close>

lemma resident_model:
  "resident s \<Longrightarrow> \<exists>p. objects (bob s) (policy s) = Some (ModelObj p)"
  by (auto simp add: resident_def split: option.splits obj.splits)

lemma select_action_frame:
  "select_action c observation s = (r, s') \<Longrightarrow>
     policy s' = policy s \<and> env s' = env s \<and>
     episode_raw_rewards s' = episode_raw_rewards s \<and> total_rewards s' = total_rewards s"
  by (auto simp add: select_action_unfold
      split: sum.splits option.splits obj.splits prod.splits if_splits)

lemma select_action_log_prob:
  "select_action c observation s = (Inr action, s') \<Longrightarrow>
     \<exists>log_prob. episode_log_probs s' = episode_log_probs s @ [log_prob]"
  by (auto simp add: select_action_unfold
      split: sum.splits option.splits obj.splits prod.splits if_splits)

lemma select_action_resident:
  "select_action c observation s = (r, s') \<Longrightarrow> resident s \<Longrightarrow> resident s'"
  by (auto simp add: select_action_unfold resident_def
      split: sum.splits option.splits obj.splits prod.splits if_splits)

lemma step_loop_buffers:
  "step_loop c n observation er taken s = (Inr (er', taken'), s') \<Longrightarrow>
     \<exists>lps rs. episode_log_probs s' = episode_log_probs s @ lps \<and>
       episode_raw_rewards s' = episode_raw_rewards s @ rs \<and>
       length lps = length rs \<and> taken' = taken + length rs \<and> length rs \<le> n \<and>
       (0 < n \<longrightarrow> rs \<noteq> []) \<and>
       er' = er + sum_list rs \<and> total_rewards s' = total_rewards s \<and>
       (length rs < n \<longrightarrow>
          (\<exists>e a ob. env_step c e a = (env s', ob, last (episode_raw_rewards s'), True)))"
proof (induction n arbitrary: observation er taken s)
  case 0
  then show ?case by simp
next
  case (Suc n)
  from Suc.prems obtain action s1 where sel: "select_action c observation s = (Inr action, s1)"
    by (auto split: prod.splits sum.splits)
  obtain env' observation' reward finished
    where stp: "env_step c (env s1) action = (env', observation', reward, finished)"
    by (cases "env_step c (env s1) action")
  define s2 where "s2 = s1\<lparr>env := env', episode_raw_rewards := episode_raw_rewards s1 @ [reward]\<rparr>"
  from select_action_log_prob [OF sel] obtain log_prob
    where lp: "episode_log_probs s1 = episode_log_probs s @ [log_prob]" by blast
  note fr = select_action_frame [OF sel]
  show ?case
  proof (cases finished)
    case True
    with Suc.prems sel stp have res: "er' = er + reward" "taken' = Suc taken" "s' = s2"
      by (simp_all add: s2_def)
    have "env_step c (env s1) action = (env s', observation', last (episode_raw_rewards s'), True)"
      using stp True res by (simp add: s2_def)
    then have "\<exists>e a ob. env_step c e a = (env s', ob, last (episode_raw_rewards s'), True)"
      by blast
    with res lp fr show ?thesis
      by (intro exI [of _ "[log_prob]"] exI [of _ "[reward]"]) (simp add: s2_def)
  next
    case False
    with Suc.prems sel stp
    have "step_loop c n observation' (er + reward) (Suc taken) s2 = (Inr (er', taken'), s')"
      by (simp add: s2_def)
    from Suc.IH [OF this] obtain lps rs where
      ih: "episode_log_probs s' = episode_log_probs s2 @ lps"
          "episode_raw_rewards s' = episode_raw_rewards s2 @ rs"
          "length lps = length rs" "taken' = Suc taken + length rs" "length rs \<le> n"
          "er' = er + reward + sum_list rs" "total_rewards s' = total_rewards s2"
          "length rs < n \<longrightarrow>
             (\<exists>e a ob. env_step c e a = (env s', ob, last (episode_raw_rewards s'), True))"
      by blast
    with lp fr show ?thesis
      by (intro exI [of _ "log_prob # lps"] exI [of _ "reward # rs"]) (simp add: s2_def)
  qed
qed

lemma step_loop_resident:
  "step_loop c n observation er taken s = (r, s') \<Longrightarrow> resident s \<Longrightarrow> resident s'"
proof (induction n arbitrary: observation er taken s)
  case 0
  then show ?case by simp
next
  case (Suc n)
  obtain r1 s1 where sel: "select_action c observation s = (r1, s1)"
    by (cases "select_action c observation s")
  from select_action_resident [OF sel Suc.prems(2)] have res1: "resident s1" .
  show ?case
  proof (cases r1)
    case (Inl e)
    with Suc.prems(1) sel res1 show ?thesis by simp
  next
    case (Inr action)
    obtain env' observation' reward finished
      where stp: "env_step c (env s1) action = (env', observation', reward, finished)"
      by (cases "env_step c (env s1) action")
    define s2 where
      "s2 = s1\<lparr>env := env', episode_raw_rewards := episode_raw_rewards s1 @ [reward]\<rparr>"
    from res1 have res2: "resident s2" by (simp add: resident_def s2_def)
    show ?thesis
    proof (cases finished)
      case True
      with Suc.prems(1) sel Inr stp res2 show ?thesis by (simp add: s2_def)
    next
      case False
      with Suc.prems(1) sel Inr stp
      have "step_loop c n observation' (er + reward) (Suc taken) s2 = (r, s')"
        by (simp add: s2_def)
      from Suc.IH [OF this res2] show ?thesis .
    qed
  qed
qed

lemma length_discount_and_normailze_rewards:
  "length (discount_and_normailze_rewards lib g rs) = length rs"
  by (simp add: discount_and_normailze_rewards_def Let_def length_discounted_rewards)

lemma update_policy_success:
  "update_policy c g s = (Inr u, s') \<Longrightarrow>
     episode_log_probs s' = [] \<and> episode_raw_rewards s' = [] \<and>
     total_rewards s' = total_rewards s \<and> policy s' = policy s \<and> env s' = env s"
  by (auto simp add: update_policy_def Let_def split: option.splits obj.splits sum.splits if_splits)

lemma update_policy_failure: "update_policy c g s = (Inl e, s') \<Longrightarrow> s' = s"
  by (auto simp add: update_policy_def Let_def split: option.splits obj.splits sum.splits if_splits)

lemma update_policy_resident: "update_policy c g s = (r, s') \<Longrightarrow> resident s \<Longrightarrow> resident s'"
  by (auto simp add: update_policy_def Let_def resident_def
      split: option.splits obj.splits sum.splits if_splits)

lemma update_policy_totals: "update_policy c g s = (r, s') \<Longrightarrow> total_rewards s' = total_rewards s"
  by (cases r) (auto dest: update_policy_success update_policy_failure)

lemma collect_episode_buffers:
  "collect_episode c n s = (Inr taken, s') \<Longrightarrow>
     \<exists>lps rs. episode_log_probs s' = episode_log_probs s @ lps \<and>
       episode_raw_rewards s' = episode_raw_rewards s @ rs \<and>
       length lps = taken \<and> length rs = taken \<and> taken \<le> n \<and>
       (0 < n \<longrightarrow> rs \<noteq> []) \<and>
       total_rewards s' = total_rewards s @ [sum_list rs] \<and>
       (taken < n \<longrightarrow>
          (\<exists>e a ob. env_step c e a = (env s', ob, last (episode_raw_rewards s'), True)))"
proof -
  assume run: "collect_episode c n s = (Inr taken, s')"
  obtain env0 observation where rst: "env_reset c (env s) = (env0, observation)"
    by (cases "env_reset c (env s)")
  from run rst obtain er s1 where
    loop: "step_loop c n observation 0 0 (s\<lparr>env := env0\<rparr>) = (Inr (er, taken), s1)" and
    s': "s' = s1\<lparr>total_rewards := total_rewards s1 @ [er]\<rparr>"
    by (auto simp add: collect_episode_def split: prod.splits sum.splits)
  have "\<exists>lps rs. episode_log_probs s1 = episode_log_probs s @ lps \<and>
       episode_raw_rewards s1 = episode_raw_rewards s @ rs \<and>
       length lps = length rs \<and> taken = length rs \<and> length rs \<le> n \<and>
       (0 < n \<longrightarrow> rs \<noteq> []) \<and> er = sum_list rs \<and> total_rewards s1 = total_rewards s \<and>
       (length rs < n \<longrightarrow>
          (\<exists>e a ob. env_step c e a = (env s1, ob, last (episode_raw_rewards s1), True)))"
    using step_loop_buffers [OF loop] by simp
  then obtain lps rs where
    b: "episode_log_probs s1 = episode_log_probs s @ lps"
       "episode_raw_rewards s1 = episode_raw_rewards s @ rs"
       "length lps = length rs" "taken = length rs" "length rs \<le> n" "0 < n \<longrightarrow> rs \<noteq> []"
       "er = sum_list rs" "total_rewards s1 = total_rewards s"
       "length rs < n \<longrightarrow>
          (\<exists>e a ob. env_step c e a = (env s1, ob, last (episode_raw_rewards s1), True))"
    by blast
  then show ?thesis
    by (intro exI [of _ lps] exI [of _ rs]) (simp add: s')
qed

lemma collect_episode_resident:
  "collect_episode c n s = (r, s') \<Longrightarrow> resident s \<Longrightarrow> resident s'"
proof -
  assume run: "collect_episode c n s = (r, s')" and res: "resident s"
  obtain env0 observation where rst: "env_reset c (env s) = (env0, observation)"
    by (cases "env_reset c (env s)")
  obtain r1 s1 where loop: "step_loop c n observation 0 0 (s\<lparr>env := env0\<rparr>) = (r1, s1)"
    by (cases "step_loop c n observation 0 0 (s\<lparr>env := env0\<rparr>)")
  from res have "resident (s\<lparr>env := env0\<rparr>)" by (simp add: resident_def)
  from step_loop_resident [OF loop this] have "resident s1" .
  with run rst loop show ?thesis
    by (auto simp add: collect_episode_def resident_def split: prod.splits sum.splits)
qed

lemma run_episode_resident:
  "run_episode c g n s = (r, s') \<Longrightarrow> resident s \<Longrightarrow> resident s'"
  by (auto simp add: run_episode_def split: prod.splits sum.splits
      dest: collect_episode_resident update_policy_resident)

lemma run_episode_success:
  "run_episode c g n s = (Inr u, s') \<Longrightarrow>
     episode_log_probs s' = [] \<and> episode_raw_rewards s' = [] \<and>
     (\<exists>total. total_rewards s' = total_rewards s @ [total])"
proof -
  assume run: "run_episode c g n s = (Inr u, s')"
  then obtain taken s1 where col: "collect_episode c n s = (Inr taken, s1)"
    and upd: "update_policy c g s1 = (Inr u, s')"
    by (auto simp add: run_episode_def split: prod.splits sum.splits)
  from collect_episode_buffers [OF col] update_policy_success [OF upd] show ?thesis
    by auto
qed

lemma episode_loop_resident:
  "episode_loop c g k n s = (r, s') \<Longrightarrow> resident s \<Longrightarrow> resident s'"
proof (induction k arbitrary: s)
  case 0
  then show ?case by simp
next
  case (Suc k)
  obtain r1 s1 where ep: "run_episode c g n s = (r1, s1)" by (cases "run_episode c g n s")
  from run_episode_resident [OF ep Suc.prems(2)] have "resident s1" .
  with Suc.prems(1) Suc.IH [of s1] ep show ?case
    by (cases r1) auto
qed

lemma episode_loop_totals:
  "episode_loop c g k n s = (Inr u, s') \<Longrightarrow>
     \<exists>totals. total_rewards s' = total_rewards s @ totals \<and> length totals = k"
proof (induction k arbitrary: s)
  case 0
  then show ?case by simp
next
  case (Suc k)
  from Suc.prems obtain u1 s1 where ep: "run_episode c g n s = (Inr u1, s1)"
    and rest: "episode_loop c g k n s1 = (Inr u, s')"
    by (auto split: prod.splits sum.splits)
  from run_episode_success [OF ep] obtain total
    where t1: "total_rewards s1 = total_rewards s @ [total]" by blast
  from Suc.IH [OF rest] obtain totals
    where t2: "total_rewards s' = total_rewards s1 @ totals" "length totals = k" by blast
  with t1 show ?case
    by (intro exI [of _ "total # totals"]) simp
qed

lemma report_mean_max:
  assumes "report totals = Inr (average, maximum)"
  shows "totals \<noteq> [] \<and> average = sum_list totals / real (length totals) \<and>
     maximum = Max (set totals)"
proof (cases totals)
  case Nil
  with assms show ?thesis by (simp add: report_def)
next
  case (Cons x xs)
  with assms Max.set_eq_fold [of x xs] show ?thesis
    by (simp add: report_def)
qed

section \<open>The stub run\<close>

text \<open>Unfolding the two loops at a positive bound, to run them on numerals.\<close>

lemma step_loop_pos:
  "0 < n \<Longrightarrow> step_loop c n observation episode_rewards taken s =
     (case select_action c observation s of
        (Inl e, s1) \<Rightarrow> (Inl e, s1)
      | (Inr action, s1) \<Rightarrow>
          (case env_step c (env s1) action of
             (env', observation', reward, finished) \<Rightarrow>
               (let s2 = s1\<lparr>env := env',
                           episode_raw_rewards := episode_raw_rewards s1 @ [reward]\<rparr>
                in if finished then (Inr (episode_rewards + reward, Suc taken), s2)
                   else step_loop c (n - 1) observation' (episode_rewards + reward) (Suc taken) s2)))"
proof -
  assume "0 < n"
  then obtain m where n: "n = Suc m" by (cases n) auto
  show ?thesis unfolding n diff_Suc_1 by simp
qed

lemma episode_loop_pos:
  "0 < k \<Longrightarrow> episode_loop c g k n s =
     (case run_episode c g n s of
        (Inl e, s1) \<Rightarrow> (Inl e, s1)
      | (Inr _, s1) \<Rightarrow> episode_loop c g (k - 1) n s1)"
proof -
  assume "0 < k"
  then obtain m where k: "k = Suc m" by (cases k) auto
  show ?thesis unfolding k diff_Suc_1 by simp
qed

lemmas stub_defs =
  stub_collab_def stub_start_def initial_state_def empty_worker_def stub_sample_def stub_reset_def stub_step_def
  stub_backward_step_def

lemma stub_episode:
  "fst (collect_episode (stub_collab 5) 1000 stub_start) = Inr 5 \<and>
   map lp_value (episode_log_probs (snd (collect_episode (stub_collab 5) 1000 stub_start))) =
     [- 1, - 1, - 1, - 1, - 1] \<and>
   episode_raw_rewards (snd (collect_episode (stub_collab 5) 1000 stub_start)) = [1, 1, 1, 1, 1] \<and>
   total_rewards (snd (collect_episode (stub_collab 5) 1000 stub_start)) = [5]"
  by (simp add: collect_episode_def step_loop_pos select_action_unfold stub_defs)

lemma discount_and_normailze_rewards_eq_Nil:
  "discount_and_normailze_rewards lib g rs = [] \<longleftrightarrow> rs = []"
  using length_discount_and_normailze_rewards [of lib g rs] by (simp only: flip: length_0_conv)

lemma update_policy_failing:
  "backward_step c = failing_backward_step \<Longrightarrow>
   objects (bob s) (policy s) = Some (ModelObj p) \<Longrightarrow>
   episode_log_probs s \<noteq> [] \<Longrightarrow> episode_raw_rewards s \<noteq> [] \<Longrightarrow>
   update_policy c g s = (Inl RuntimeError, s)"
  by (simp add: update_policy_def Let_def discount_and_normailze_rewards_eq_Nil
      failing_backward_step_def)

lemma update_policy_stub:
  "backward_step c = stub_backward_step \<Longrightarrow>
   objects (bob s) (policy s) = Some (ModelObj p) \<Longrightarrow>
   episode_log_probs s \<noteq> [] \<Longrightarrow> episode_raw_rewards s \<noteq> [] \<Longrightarrow>
   update_policy c g s =
     (Inr (), s\<lparr>bob := (bob s)\<lparr>objects := (objects (bob s))(policy s \<mapsto> ModelObj p)\<rparr>,
               episode_log_probs := [], episode_raw_rewards := []\<rparr>)"
  by (simp add: update_policy_def Let_def discount_and_normailze_rewards_eq_Nil
      stub_backward_step_def)

section \<open>Whole runs\<close>

lemma initial_state_fields:
  "episode_log_probs (initial_state p0 e0 r0) = []"
  "episode_raw_rewards (initial_state p0 e0 r0) = []"
  "total_rewards (initial_state p0 e0 r0) = []"
  by (simp_all add: initial_state_def send_def Let_def)

lemma initial_state_resident: "resident (initial_state p0 e0 r0)"
  by (simp add: resident_def initial_state_def send_def empty_worker_def)

text \<open>Every episode of a run starts with an empty trajectory buffer.\<close>

lemma episode_loop_buffers:
  "episode_loop c g k n s = (Inr u, s') \<Longrightarrow>
     episode_log_probs s = [] \<and> episode_raw_rewards s = [] \<Longrightarrow>
     episode_log_probs s' = [] \<and> episode_raw_rewards s' = []"
proof (induction k arbitrary: s)
  case 0
  then show ?case by simp
next
  case (Suc k)
  from Suc.prems(1) obtain u1 s1 where ep: "run_episode c g n s = (Inr u1, s1)"
    and rest: "episode_loop c g k n s1 = (Inr u, s')"
    by (auto split: prod.splits sum.splits)
  from run_episode_success [OF ep]
  have "episode_log_probs s1 = [] \<and> episode_raw_rewards s1 = []" by simp
  from Suc.IH [OF rest this] show ?case .
qed

lemma episode_start_buffers:
  "episode_loop c g k n (initial_state p0 e0 r0) = (Inr u, s) \<Longrightarrow>
     episode_log_probs s = [] \<and> episode_raw_rewards s = []"
  by (erule episode_loop_buffers) (simp add: initial_state_fields)

lemma train_outcome:
  assumes run: "train c g k n p0 e0 r0 = (r, s')"
  shows "case r of
           Inr res \<Rightarrow> objects (bob s') = Map.empty \<and> length (total_rewards s') = k \<and>
                      report (total_rewards s') = Inr res \<and> clear_calls (bob s') = 1 \<and>
                      (\<exists>log. crossings (bob s') = log @ [Retrieved (policy s')] \<and>
                             Retrieved (policy s') \<notin> set log)
         | Inl e \<Rightarrow> 0 < k \<longrightarrow> resident s'"
proof -
  define s0 where "s0 = initial_state p0 e0 r0"
  have res0: "resident s0"
    by (simp add: s0_def initial_state_resident)
  obtain r1 s1 where loop: "episode_loop c g k n s0 = (r1, s1)"
    by (cases "episode_loop c g k n s0")
  from episode_loop_resident [OF loop res0] have res1: "resident s1" .
  have unfolded: "train c g k n p0 e0 r0 =
     (case (r1, s1) of
        (Inl e, s1) \<Rightarrow> (Inl e, s1)
      | (Inr _, s1) \<Rightarrow>
          (case retrieve (policy s1) (bob s1) of
             Inl e \<Rightarrow> (Inl e, s1)
           | Inr (_, w2) \<Rightarrow>
               (let s2 = s1\<lparr>bob := clear w2\<rparr>
                in case report (total_rewards s2) of
                     Inl e \<Rightarrow> (Inl e, s2)
                   | Inr r \<Rightarrow> (Inr r, s2))))"
    unfolding train_def loop [symmetric] s0_def by simp
  show ?thesis
  proof (cases r1)
    case (Inl e)
    with run unfolded res1 show ?thesis by auto
  next
    case (Inr u)
    from episode_loop_totals [OF loop [unfolded Inr]]
    have len: "length (total_rewards s1) = k"
      by (auto simp add: s0_def initial_state_fields)
    from resident_model [OF res1] obtain p
      where p: "objects (bob s1) (policy s1) = Some (ModelObj p)" ..
    from res1 have fresh: "Retrieved (policy s1) \<notin> set (crossings (bob s1))"
      and calls: "clear_calls (bob s1) = 0"
      by (simp_all add: resident_def)
    define w2 where "w2 = (bob s1)\<lparr>objects := (objects (bob s1))(policy s1 := None),
      crossings := crossings (bob s1) @ [Retrieved (policy s1)]\<rparr>"
    have ret: "retrieve (policy s1) (bob s1) = Inr (ModelObj p, w2)"
      by (simp add: retrieve_def p w2_def)
    show ?thesis
    proof (cases "report (total_rewards s1)")
      case (Inl e)
      with len have "k = 0" by (auto simp add: report_def split: list.splits)
      with run unfolded Inr ret Inl show ?thesis by (auto simp add: Let_def)
    next
      case rep: (Inr res)
      with run unfolded Inr ret have "r = Inr res" "s' = s1\<lparr>bob := clear w2\<rparr>"
        by (simp_all add: Let_def)
      with len rep fresh calls show ?thesis by (simp add: clear_def w2_def)
    qed
  qed
qed

section \<open>The trajectory buffer\<close>

lemma stub_collect:
  "collect_episode (stub_collab 5) 1000 stub_start = (Inr 5, stub_collected)"
  using stub_episode by (simp add: stub_collected_def prod_eq_iff)

lemma stub_collected_fields:
  "map lp_value (episode_log_probs stub_collected) = [- 1, - 1, - 1, - 1, - 1]"
  "episode_raw_rewards stub_collected = [1, 1, 1, 1, 1]"
  "total_rewards stub_collected = [5]"
  "episode_log_probs stub_collected \<noteq> []"
  using stub_episode by (auto simp add: stub_collected_def)

lemma stub_collected_resident:
  "\<exists>p. objects (bob stub_collected) (policy stub_collected) = Some (ModelObj p)"
proof -
  have "resident stub_start"
    by (simp add: stub_start_def initial_state_resident)
  from collect_episode_resident [OF stub_collect this] show ?thesis
    by (rule resident_model)
qed

text \<open>
  Claim C4, amended.  In every episode of a run that reaches the policy update (after
  any number \<open>k\<close> of completed episodes), the log-probability sequence and the raw-reward
  sequence have the same length immediately before the update, and that length is the
  number of environment steps taken in the episode.  Both sequences are empty
  immediately after an update that completes.  When the update raises, the two
  sequences are left as they were.
\<close>

theorem trajectory_buffer_lifecycle:
  "(episode_loop c g k n_steps (initial_state p0 env0 rng0) = (Inr u0, s) \<and>
    collect_episode c n_steps s = (Inr taken, s1) \<longrightarrow>
      length (episode_log_probs s1) = taken \<and> length (episode_raw_rewards s1) = taken) \<and>
   (update_policy c g s1 = (Inr u, s2) \<longrightarrow>
      episode_log_probs s2 = [] \<and> episode_raw_rewards s2 = []) \<and>
   (update_policy c g s1 = (Inl e, s2) \<longrightarrow>
      episode_log_probs s2 = episode_log_probs s1 \<and>
      episode_raw_rewards s2 = episode_raw_rewards s1)"
proof (intro conjI impI)
  assume a: "episode_loop c g k n_steps (initial_state p0 env0 rng0) = (Inr u0, s) \<and>
    collect_episode c n_steps s = (Inr taken, s1)"
  then have start: "episode_loop c g k n_steps (initial_state p0 env0 rng0) = (Inr u0, s)"
    and col: "collect_episode c n_steps s = (Inr taken, s1)" by simp_all
  from collect_episode_buffers [OF col] episode_start_buffers [OF start]
  show "length (episode_log_probs s1) = taken" and "length (episode_raw_rewards s1) = taken"
    by auto
next
  assume "update_policy c g s1 = (Inr u, s2)"
  from update_policy_success [OF this]
  show "episode_log_probs s2 = []" and "episode_raw_rewards s2 = []" by simp_all
next
  assume "update_policy c g s1 = (Inl e, s2)"
  from update_policy_failure [OF this]
  show "episode_log_probs s2 = episode_log_probs s1"
    and "episode_raw_rewards s2 = episode_raw_rewards s1" by simp_all
qed

theorem trajectory_buffer_lifecycle_witness:
  "episode_loop (stub_collab 5) (95 / 100) 0 1000 (initial_state zero_params 0 ()) =
     (Inr (), stub_start) \<and>
   collect_episode (stub_collab 5) 1000 stub_start = (Inr 5, stub_collected) \<and>
   length (episode_log_probs stub_collected) = 5 \<and>
   length (episode_raw_rewards stub_collected) = 5 \<and>
   (\<exists>s2. update_policy (stub_collab 5) (95 / 100) stub_collected = (Inr (), s2) \<and>
         episode_log_probs s2 = [] \<and> episode_raw_rewards s2 = []) \<and>
   (\<exists>s2. update_policy failing_update_collab (95 / 100) stub_collected = (Inl RuntimeError, s2) \<and>
         episode_log_probs s2 = episode_log_probs stub_collected \<and>
         episode_raw_rewards s2 = episode_raw_rewards stub_collected)"
proof -
  have start: "episode_loop (stub_collab 5) (95 / 100) 0 1000 (initial_state zero_params 0 ()) =
      (Inr (), stub_start)"
    by (simp add: stub_start_def)
  from stub_collected_resident obtain p
    where p: "objects (bob stub_collected) (policy stub_collected) = Some (ModelObj p)" ..
  obtain s2 where good: "update_policy (stub_collab 5) (95 / 100) stub_collected = (Inr (), s2)"
    using update_policy_stub [OF _ p, of "stub_collab 5" "95 / 100"]
    by (simp add: stub_collected_fields stub_collab_def)
  have bad: "update_policy failing_update_collab (95 / 100) stub_collected =
      (Inl RuntimeError, stub_collected)"
    using update_policy_failing [OF _ p, of failing_update_collab "95 / 100"]
    by (simp add: stub_collected_fields failing_update_collab_def)
  from trajectory_buffer_lifecycle
         [where c = "stub_collab 5" and g = "95 / 100" and k = 0 and n_steps = 1000
            and ?p0.0 = zero_params and ?env0.0 = 0 and ?rng0.0 = "()" and ?u0.0 = "()"
            and s = stub_start and taken = 5
            and ?s1.0 = stub_collected and u = "()" and ?s2.0 = s2]
       trajectory_buffer_lifecycle
         [where c = failing_update_collab and ?s1.0 = stub_collected and g = "95 / 100"
            and e = RuntimeError and ?s2.0 = stub_collected]
       start stub_collect good bad
  show ?thesis by simp
qed

text \<open>
  Claim C4, as stated, has the buffer emptied also when the update fails.  In the stub
  episode with a gradient step that raises, the exception leaves \<open>update_policy\<close> before
  the two \<open>del\<close> statements, and the five log-probabilities and five rewards are still
  in the buffer.
\<close>

theorem stale_buffer_counterexample:
  "fst (run_episode failing_update_collab (95 / 100) 1000 stub_start) = Inl RuntimeError \<and>
   map lp_value
     (episode_log_probs (snd (run_episode failing_update_collab (95 / 100) 1000 stub_start))) =
     [- 1, - 1, - 1, - 1, - 1] \<and>
   episode_raw_rewards (snd (run_episode failing_update_collab (95 / 100) 1000 stub_start)) =
     [1, 1, 1, 1, 1]"
  by (simp add: run_episode_def collect_episode_def step_loop_pos select_action_unfold stub_defs
      update_policy_failing failing_update_collab_def)

section \<open>Clean-up of the worker\<close>

text \<open>
  Claim C7, amended.  When a run completes normally, the policy model has been
  retrieved (it is the last crossing in the log of the worker, and the only retrieve of
  that handle), \<open>clear\<close> has been called, exactly once, and the remote execution context
  owns zero tensors.  No failure is handled: when a run of at least one episode ends with
  an exception, \<open>clear\<close> has not been called, the policy model has not been retrieved,
  and the context still owns it.
\<close>

theorem run_cleanup:
  "(train c g n_episodes n_steps p0 env0 rng0 = (Inr result, s') \<longrightarrow>
      objects (bob s') = Map.empty \<and> owned_count (bob s') = 0 \<and>
      clear_calls (bob s') = 1 \<and>
      (\<exists>log. crossings (bob s') = log @ [Retrieved (policy s')] \<and>
             Retrieved (policy s') \<notin> set log)) \<and>
   (0 < n_episodes \<and> train c g n_episodes n_steps p0 env0 rng0 = (Inl e, s') \<longrightarrow>
      (\<exists>p. objects (bob s') (policy s') = Some (ModelObj p)) \<and>
      clear_calls (bob s') = 0 \<and> Retrieved (policy s') \<notin> set (crossings (bob s')))"
proof (intro conjI impI)
  assume "train c g n_episodes n_steps p0 env0 rng0 = (Inr result, s')"
  from train_outcome [OF this]
  show "objects (bob s') = Map.empty" and "owned_count (bob s') = 0"
    and "clear_calls (bob s') = 1"
    and "\<exists>log. crossings (bob s') = log @ [Retrieved (policy s')] \<and>
             Retrieved (policy s') \<notin> set log"
    by (simp_all add: owned_count_def)
next
  assume "0 < n_episodes \<and> train c g n_episodes n_steps p0 env0 rng0 = (Inl e, s')"
  then have "0 < n_episodes" and "train c g n_episodes n_steps p0 env0 rng0 = (Inl e, s')"
    by simp_all
  with train_outcome [of c g n_episodes n_steps p0 env0 rng0 "Inl e" s']
  have res: "resident s'" by simp
  from resident_model [OF res]
  show "\<exists>p. objects (bob s') (policy s') = Some (ModelObj p)" .
  from res show "clear_calls (bob s') = 0"
    and "Retrieved (policy s') \<notin> set (crossings (bob s'))"
    by (simp_all add: resident_def)
qed

text \<open>
  Claim C7, as stated, has \<open>clear\<close> called on every failure path.  In the notebook's run
  with a sampler that raises, the run ends at the first step; \<open>clear\<close> has not been
  called, and the worker still owns two objects: the policy model and the observation
  that had just been sent.
\<close>

theorem clear_skipped_counterexample:
  "fst (notebook_run failing_sample_collab zero_params 0 ()) = Inl DistributionError \<and>
   clear_calls (bob (snd (notebook_run failing_sample_collab zero_params 0 ()))) = 0 \<and>
   objects (bob (snd (notebook_run failing_sample_collab zero_params 0 ()))) 0 =
     Some (ModelObj zero_params) \<and>
   objects (bob (snd (notebook_run failing_sample_collab zero_params 0 ()))) 1 =
     Some (TensorObj [0, 0, 0, 0]) \<and>
   0 < owned_count (bob (snd (notebook_run failing_sample_collab zero_params 0 ())))"
  by (simp add: notebook_run_def train_def episode_loop_pos run_episode_def collect_episode_def step_loop_pos
      select_action_unfold stub_defs failing_sample_def failing_sample_collab_def owned_count_def)

lemma stub_run:
  "train (stub_collab 5) (95 / 100) 2 1000 zero_params 0 () =
     (Inr (5, 5), snd (train (stub_collab 5) (95 / 100) 2 1000 zero_params 0 ()))"
  "total_rewards (snd (train (stub_collab 5) (95 / 100) 2 1000 zero_params 0 ())) = [5, 5]"
  by (simp_all add: train_def episode_loop_pos run_episode_def collect_episode_def step_loop_pos
      select_action_unfold stub_defs update_policy_stub report_def clear_def prod_eq_iff)

lemma failing_run:
  "train failing_sample_collab (95 / 100) 500 1000 zero_params 0 () =
     (Inl DistributionError, snd (train failing_sample_collab (95 / 100) 500 1000 zero_params 0 ()))"
  by (simp add: train_def episode_loop_pos run_episode_def collect_episode_def step_loop_pos
      select_action_unfold stub_defs failing_sample_def failing_sample_collab_def prod_eq_iff)

theorem run_cleanup_witness:
  "train (stub_collab 5) (95 / 100) 2 1000 zero_params 0 () =
     (Inr (5, 5), snd (train (stub_collab 5) (95 / 100) 2 1000 zero_params 0 ())) \<and>
   objects (bob (snd (train (stub_collab 5) (95 / 100) 2 1000 zero_params 0 ()))) = Map.empty \<and>
   owned_count (bob (snd (train (stub_collab 5) (95 / 100) 2 1000 zero_params 0 ()))) = 0 \<and>
   clear_calls (bob (snd (train (stub_collab 5) (95 / 100) 2 1000 zero_params 0 ()))) = 1 \<and>
   (\<exists>log. crossings (bob (snd (train (stub_collab 5) (95 / 100) 2 1000 zero_params 0 ()))) =
            log @ [Retrieved (policy (snd (train (stub_collab 5) (95 / 100) 2 1000
                     zero_params 0 ())))] \<and>
          Retrieved (policy (snd (train (stub_collab 5) (95 / 100) 2 1000 zero_params 0 ())))
            \<notin> set log) \<and>
   (0 :: nat) < 500 \<and>
   train failing_sample_collab (95 / 100) 500 1000 zero_params 0 () =
     (Inl DistributionError, snd (train failing_sample_collab (95 / 100) 500 1000 zero_params 0 ())) \<and>
   (\<exists>p. objects (bob (snd (train failing_sample_collab (95 / 100) 500 1000 zero_params 0 ())))
          (policy (snd (train failing_sample_collab (95 / 100) 500 1000 zero_params 0 ()))) =
        Some (ModelObj p)) \<and>
   clear_calls (bob (snd (train failing_sample_collab (95 / 100) 500 1000 zero_params 0 ()))) = 0"
  using
    run_cleanup [where c = "stub_collab 5" and g = "95 / 100" and n_episodes = 2
      and n_steps = 1000 and ?p0.0 = zero_params and ?env0.0 = 0 and ?rng0.0 = "()"
      and result = "(5, 5)"
      and s' = "snd (train (stub_collab 5) (95 / 100) 2 1000 zero_params 0 ())"]
    run_cleanup [where c = failing_sample_collab and g = "95 / 100" and n_episodes = 500
      and n_steps = 1000 and ?p0.0 = zero_params and ?env0.0 = 0 and ?rng0.0 = "()"
      and e = DistributionError
      and s' = "snd (train failing_sample_collab (95 / 100) 500 1000 zero_params 0 ())"]
    stub_run(1) failing_run
  by simp

section \<open>The report\<close>

text \<open>
  Claim C9.  The summary of a completed run, mean total reward and max total reward, is
  the arithmetic mean and the maximum of the recorded sequence of per-episode totals,
  which has one entry per episode; and the entry that an episode of a run records (after
  any number \<open>k\<close> of completed episodes) is the plain, undiscounted sum of the raw rewards
  collected in that episode.
\<close>

theorem run_report:
  "(train c g n_episodes n_steps p0 env0 rng0 = (Inr (average, maximum), s') \<longrightarrow>
      length (total_rewards s') = n_episodes \<and> total_rewards s' \<noteq> [] \<and>
      average = sum_list (total_rewards s') / real (length (total_rewards s')) \<and>
      maximum = Max (set (total_rewards s'))) \<and>
   (episode_loop c g k n_steps (initial_state p0 env0 rng0) = (Inr u0, s) \<and>
    collect_episode c n_steps s = (Inr taken, s1) \<and> update_policy c g s1 = (r, s2) \<longrightarrow>
      total_rewards s2 = total_rewards s @ [sum_list (episode_raw_rewards s1)])"
proof (intro conjI impI)
  assume "train c g n_episodes n_steps p0 env0 rng0 = (Inr (average, maximum), s')"
  from train_outcome [OF this]
  have len: "length (total_rewards s') = n_episodes"
    and rep: "report (total_rewards s') = Inr (average, maximum)" by simp_all
  from len show "length (total_rewards s') = n_episodes" .
  from report_mean_max [OF rep]
  show "total_rewards s' \<noteq> []"
    and "average = sum_list (total_rewards s') / real (length (total_rewards s'))"
    and "maximum = Max (set (total_rewards s'))" by simp_all
next
  assume a: "episode_loop c g k n_steps (initial_state p0 env0 rng0) = (Inr u0, s) \<and>
    collect_episode c n_steps s = (Inr taken, s1) \<and> update_policy c g s1 = (r, s2)"
  then have start: "episode_loop c g k n_steps (initial_state p0 env0 rng0) = (Inr u0, s)"
    and col: "collect_episode c n_steps s = (Inr taken, s1)"
    and upd: "update_policy c g s1 = (r, s2)" by simp_all
  from collect_episode_buffers [OF col] episode_start_buffers [OF start]
    update_policy_totals [OF upd]
  show "total_rewards s2 = total_rewards s @ [sum_list (episode_raw_rewards s1)]"
    by auto
qed

theorem run_report_witness:
  "train (stub_collab 5) (95 / 100) 2 1000 zero_params 0 () =
     (Inr (5, 5), snd (train (stub_collab 5) (95 / 100) 2 1000 zero_params 0 ())) \<and>
   total_rewards (snd (train (stub_collab 5) (95 / 100) 2 1000 zero_params 0 ())) = [5, 5] \<and>
   (5 :: real) = sum_list [5, 5] / real (length [5, 5 :: real]) \<and>
   (5 :: real) = Max (set [5, 5]) \<and>
   episode_loop (stub_collab 5) (95 / 100) 0 1000 (initial_state zero_params 0 ()) =
     (Inr (), stub_start) \<and>
   collect_episode (stub_collab 5) 1000 stub_start = (Inr 5, stub_collected) \<and>
   total_rewards (snd (update_policy (stub_collab 5) (95 / 100) stub_collected)) =
     total_rewards stub_start @ [sum_list (episode_raw_rewards stub_collected)] \<and>
   sum_list (episode_raw_rewards stub_collected) = 5"
  using
    run_report [where c = "stub_collab 5" and g = "95 / 100" and n_episodes = 2
      and n_steps = 1000 and ?p0.0 = zero_params and ?env0.0 = 0 and ?rng0.0 = "()"
      and average = 5 and maximum = 5
      and s' = "snd (train (stub_collab 5) (95 / 100) 2 1000 zero_params 0 ())"
      and k = 0 and ?u0.0 = "()"
      and s = stub_start and taken = 5 and ?s1.0 = stub_collected
      and r = "fst (update_policy (stub_collab 5) (95 / 100) stub_collected)"
      and ?s2.0 = "snd (update_policy (stub_collab 5) (95 / 100) stub_collected)"]
    stub_run stub_collect
  by (simp add: stub_collected_fields stub_start_def)

section \<open>Rewards and the termination check\<close>

text \<open>
  Claim C10.  In every episode (the step limit being positive, as the notebook's 1000)
  the reward of each step, the terminal one included, is appended to the buffer before
  the termination check: when the policy update runs, the raw-reward sequence is not
  empty, it holds one reward per step taken, the episode total is the sum of all of
  them, and when the episode ended before the step limit the last reward in the buffer
  is the reward of a step that reported termination.  The update is called on exactly
  that state, so the return normaliser never receives an empty sequence.
\<close>

theorem rewards_recorded_before_exit:
  "0 < n_steps \<and> collect_episode c n_steps s = (Inr taken, s1) \<longrightarrow>
     episode_raw_rewards s1 \<noteq> [] \<and> 1 \<le> taken \<and>
     (\<exists>rs. rs \<noteq> [] \<and> length rs = taken \<and>
           episode_raw_rewards s1 = episode_raw_rewards s @ rs \<and>
           total_rewards s1 = total_rewards s @ [sum_list rs]) \<and>
     (taken < n_steps \<longrightarrow>
        (\<exists>e a ob. env_step c e a = (env s1, ob, last (episode_raw_rewards s1), True))) \<and>
     run_episode c g n_steps s = update_policy c g s1 \<and>
     discount_and_normailze_rewards (tensor_ops c) g (episode_raw_rewards s1) \<noteq> []"
proof
  assume a: "0 < n_steps \<and> collect_episode c n_steps s = (Inr taken, s1)"
  then have pos: "0 < n_steps" and col: "collect_episode c n_steps s = (Inr taken, s1)"
    by simp_all
  from collect_episode_buffers [OF col] pos obtain lps rs where
    b: "episode_raw_rewards s1 = episode_raw_rewards s @ rs" "length rs = taken" "rs \<noteq> []"
       "total_rewards s1 = total_rewards s @ [sum_list rs]"
       "taken < n_steps \<longrightarrow>
          (\<exists>e a ob. env_step c e a = (env s1, ob, last (episode_raw_rewards s1), True))"
    by blast
  from b(2,3) have taken: "1 \<le> taken" by (cases rs) auto
  from b(1,3) have ne: "episode_raw_rewards s1 \<noteq> []" by simp
  have run: "run_episode c g n_steps s = update_policy c g s1"
    by (simp add: run_episode_def col)
  from b taken ne run
  show "episode_raw_rewards s1 \<noteq> [] \<and> 1 \<le> taken \<and>
     (\<exists>rs. rs \<noteq> [] \<and> length rs = taken \<and>
           episode_raw_rewards s1 = episode_raw_rewards s @ rs \<and>
           total_rewards s1 = total_rewards s @ [sum_list rs]) \<and>
     (taken < n_steps \<longrightarrow>
        (\<exists>e a ob. env_step c e a = (env s1, ob, last (episode_raw_rewards s1), True))) \<and>
     run_episode c g n_steps s = update_policy c g s1 \<and>
     discount_and_normailze_rewards (tensor_ops c) g (episode_raw_rewards s1) \<noteq> []"
    by (simp add: discount_and_normailze_rewards_eq_Nil)
qed

theorem rewards_recorded_before_exit_witness:
  "(0 :: nat) < 1000 \<and>
   collect_episode (stub_collab 5) 1000 stub_start = (Inr 5, stub_collected) \<and>
   episode_raw_rewards stub_collected = [1, 1, 1, 1, 1] \<and>
   total_rewards stub_collected = [sum_list [1, 1, 1, 1, 1]] \<and>
   (\<exists>e a ob. env_step (stub_collab 5) e a =
      (env stub_collected, ob, last (episode_raw_rewards stub_collected), True)) \<and>
   run_episode (stub_collab 5) (95 / 100) 1000 stub_start =
     update_policy (stub_collab 5) (95 / 100) stub_collected \<and>
   discount_and_normailze_rewards (tensor_ops (stub_collab 5)) (95 / 100)
     (episode_raw_rewards stub_collected) \<noteq> []"
  using
    rewards_recorded_before_exit [where n_steps = 1000 and c = "stub_collab 5"
      and s = stub_start and taken = 5 and ?s1.0 = stub_collected and g = "95 / 100"]
    stub_collect
  by (simp add: stub_collected_fields)

section \<open>The gradient step after the stub episode\<close>

subsection \<open>The loss as a function of the parameters\<close>

text \<open>
  When the scores are finite and every term has the same log-probability \<open>v\<close>, the loss
  is \<open>- v\<close> times the sum of the scores.
\<close>

lemma foldl_fadd_Fin: "foldl fadd (Fin a) (map Fin zs) = Fin (a + sum_list zs)"
  by (induction zs arbitrary: a) (simp_all add: algebra_simps)



subsection \<open>Gradient descent\<close>












subsection \<open>An episode of the stub environment\<close>





subsection \<open>Scores without rounding\<close>






subsection \<open>A step that moves the parameters\<close>

text \<open>
  The gradient step is not idle.  For the two terms with different actions the loss is
  the difference of the two logits, which only the output bias changes at
  \<open>zero_params\<close>; the step moves the output bias by the learning rate, one component up
  and the other down.
\<close>

lemma dot_zero_right: "\<forall>z \<in> set zs. z = 0 \<Longrightarrow> sum_list (map2 (*) row zs) = (0 :: real)"
  by (induction row arbitrary: zs) (auto simp add: zip_Cons1 split: list.splits)

lemma dot_zero_left: "\<forall>z \<in> set row. z = 0 \<Longrightarrow> sum_list (map2 (*) row zs) = (0 :: real)"
  by (induction row arbitrary: zs) (auto simp add: zip_Cons1 split: list.splits)

lemma nn_Linear_zero:
  assumes "(\<forall>z \<in> set x. z = 0) \<or> (\<forall>row \<in> set W. \<forall>z \<in> set row. z = 0)"
    and l: "length W = length b"
  shows "nn_Linear W b x = b"
proof -
  have "map2 (\<lambda>row b. sum_list (map2 (*) row x) + b) W b = map2 (\<lambda>row b. b) W b"
    using assms(1) by (intro map_cong refl) (auto simp add: dot_zero_left dot_zero_right dest: set_zip_leftD)
  also have "\<dots> = map snd (zip W b)" by (simp add: split_def)
  also have "\<dots> = b" using l by simp
  finally show ?thesis by (simp add: nn_Linear_def)
qed

lemma forward_zero_output_weight:
  assumes "\<forall>row \<in> set (output_weight q). \<forall>z \<in> set row. z = 0"
    and "length (output_weight q) = length (output_bias q)"
  shows "forward q x = softmax (output_bias q)"
  using assms by (simp add: forward_def nn_Linear_zero)

lemma forward_zero_hidden:
  assumes "\<forall>z \<in> set x. z = 0" and "\<forall>z \<in> set (input_bias q). z = 0"
    and "length (input_weight q) = length (input_bias q)"
    and "length (output_weight q) = length (output_bias q)"
  shows "forward q x = softmax (output_bias q)"
proof -
  have "nn_Linear (input_weight q) (input_bias q) x = input_bias q"
    using assms by (simp add: nn_Linear_zero)
  moreover have "\<forall>z \<in> set (relu (input_bias q)). z = 0" using assms(2) by (auto simp add: relu_def)
  ultimately show ?thesis using assms(4) by (simp add: forward_def nn_Linear_zero)
qed

lemma loss_at_alternating: "loss_at alternating_terms q = Fin (alternating_loss q)"
  by (simp add: loss_at_def alternating_terms_def log_prob_at_def alternating_loss_def)

lemma alternating_loss_logits:
  assumes "forward q [0, 0, 0, 0] = softmax [a, b]"
  shows "alternating_loss q = b - a"
proof -
  have pos: "0 < exp a + exp b" by (simp add: add_pos_pos)
  have "ln (exp b / (exp a + exp b)) - ln (exp a / (exp a + exp b)) = b - a"
    using pos by (simp add: ln_div)
  with assms show ?thesis by (simp add: alternating_loss_def softmax_def)
qed

lemma replicate_2: "replicate 2 x = [x, x]"
  by (simp add: numeral_2_eq_2)

lemma alternating_loss_at:
  assumes "valid_coord zero_params i"
  shows "alternating_loss (set_coord zero_params i h) =
     (case i of OutputBias k \<Rightarrow> if k = 0 then - h else h | _ \<Rightarrow> 0)"
proof (cases i)
  case (InputWeight r k)
  have "forward (set_coord zero_params i h) [0, 0, 0, 0] = softmax [0, 0]"
    unfolding InputWeight
    by (subst forward_zero_output_weight) (simp_all add: zero_params_def numeral_2_eq_2)
  from alternating_loss_logits [OF this] show ?thesis by (simp add: InputWeight)
next
  case (InputBias k)
  have "forward (set_coord zero_params i h) [0, 0, 0, 0] = softmax [0, 0]"
    unfolding InputBias
    by (subst forward_zero_output_weight) (simp_all add: zero_params_def numeral_2_eq_2)
  from alternating_loss_logits [OF this] show ?thesis by (simp add: InputBias)
next
  case (OutputWeight r k)
  have "forward (set_coord zero_params i h) [0, 0, 0, 0] = softmax [0, 0]"
    unfolding OutputWeight
    by (subst forward_zero_hidden) (simp_all add: zero_params_def replicate_2 [of "0 :: real"])
  from alternating_loss_logits [OF this] show ?thesis by (simp add: OutputWeight)
next
  case (OutputBias k)
  with assms have "k = 0 \<or> k = 1" by (auto simp add: zero_params_def)
  then have "forward (set_coord zero_params i h) [0, 0, 0, 0] =
      softmax (if k = 0 then [h, 0] else [0, h])"
    unfolding OutputBias
    by (subst forward_zero_output_weight) (auto simp add: zero_params_def numeral_2_eq_2)
  then show ?thesis
    using alternating_loss_logits [of "set_coord zero_params i h" h 0]
      alternating_loss_logits [of "set_coord zero_params i h" 0 h]
    by (simp add: OutputBias split: if_splits)
qed

lemma alternating_is_gradient: "is_gradient alternating_loss zero_params alternating_gradient"
  unfolding is_gradient_def
proof (intro allI impI)
  fix i assume v: "valid_coord zero_params i"
  have eq: "(\<lambda>h. alternating_loss (set_coord zero_params i h)) =
      (\<lambda>h. case i of OutputBias k \<Rightarrow> if k = 0 then - h else h | _ \<Rightarrow> 0)"
    using alternating_loss_at [OF v] by (simp add: fun_eq_iff)
  show "DERIV (\<lambda>h. alternating_loss (set_coord zero_params i h)) (get_coord zero_params i)
      :> alternating_gradient i"
    unfolding eq alternating_gradient_def
    by (cases i) (auto intro!: derivative_eq_intros)
qed

lemma alternating_step:
  "sgd_step (3 / 100) alternating_terms zero_params
     (zero_params\<lparr>output_bias := [3 / 100, - (3 / 100)]\<rparr>) \<and>
   changes_parameters (3 / 100) alternating_terms zero_params"
proof -
  have d: "descend (3 / 100) alternating_gradient zero_params =
      zero_params\<lparr>output_bias := [3 / 100, - (3 / 100)]\<rparr>"
    by (simp add: descend_def descend_matrix_def descend_vector_def zero_params_def
        alternating_gradient_def eval_nat_numeral enumerate_Suc_eq)
  have len: "length (forward zero_params [0, 0, 0, 0]) = 2"
    by (simp add: forward_def softmax_def nn_Linear_def relu_def zero_params_def)
  have "(\<forall>q. loss_at alternating_terms q = Fin (alternating_loss q)) \<and>
      is_gradient alternating_loss zero_params alternating_gradient \<and>
      zero_params\<lparr>output_bias := [3 / 100, - (3 / 100)]\<rparr> =
        descend (3 / 100) alternating_gradient zero_params"
    using loss_at_alternating alternating_is_gradient d by simp
  then have "\<exists>L g. (\<forall>q. loss_at alternating_terms q = Fin (L q)) \<and>
      is_gradient L zero_params g \<and>
      zero_params\<lparr>output_bias := [3 / 100, - (3 / 100)]\<rparr> = descend (3 / 100) g zero_params"
    by (intro exI)
  then have step: "sgd_step (3 / 100) alternating_terms zero_params
     (zero_params\<lparr>output_bias := [3 / 100, - (3 / 100)]\<rparr>)"
    using len by (simp add: sgd_step_def alternating_terms_def)
  moreover have "zero_params\<lparr>output_bias := [3 / 100, - (3 / 100)]\<rparr> \<noteq> zero_params"
    by (simp add: zero_params_def numeral_2_eq_2)
  ultimately show ?thesis unfolding changes_parameters_def by blast
qed

subsection \<open>The update of the stub episode\<close>












end
